theory Spec2Isabelle
  imports Complex_Main "HOL-Library.Sublist"
begin

section \<open>Bulk import of a dataset into a document index (\<open>import_to_elastic.py\<close>)\<close>

subsection \<open>Python values\<close>

text \<open>
  The values the importer handles are what \<open>json.loads\<close> returns (the dataset, the
  decoded responses) plus \<open>bytes\<close>, a Python value that \<open>json.dumps\<close> rejects. A
  \<open>dict\<close> is an association list in insertion order, with string keys, each key once;
  a \<open>str\<close> is a list of characters. Floating-point numbers are left out: no path of the importer
  computes with them.
\<close>

datatype pyval =
    PNone
  | PBool bool
  | PInt int
  | PStr string
  | PBytes string
  | PList "pyval list"
  | PDict "(string \<times> pyval) list"

type_synonym pydict = "(string \<times> pyval) list"

text \<open>The exceptions that can leave \<open>import_documents\<close>.\<close>

datatype req_exc = ConnectionFailure | Timeout

datatype error =
    NotIterable                \<comment> \<open>\<open>TypeError\<close>: iterating a value that is not iterable\<close>
  | NoGetAttribute             \<comment> \<open>\<open>AttributeError\<close>: \<open>.get\<close> on a value that is not a dict\<close>
  | NotSerializable            \<comment> \<open>\<open>TypeError\<close> raised by \<open>json.dumps\<close>\<close>
  | RequestException req_exc   \<comment> \<open>raised by \<open>requests.post\<close>\<close>
  | BulkRequestFailed string   \<comment> \<open>\<open>SystemExit\<close> raised by \<open>send_bulk\<close>, with its message\<close>
  | JSONDecodeError            \<comment> \<open>raised by \<open>response.json()\<close>\<close>

text \<open>Python truthiness (\<open>bool(v)\<close>), as used by \<open>or\<close> and \<open>if\<close>.\<close>

fun truthy :: "pyval \<Rightarrow> bool" where
  "truthy PNone = False"
| "truthy (PBool b) = b"
| "truthy (PInt i) = (i \<noteq> 0)"
| "truthy (PStr s) = (s \<noteq> [])"
| "truthy (PBytes s) = (s \<noteq> [])"
| "truthy (PList xs) = (xs \<noteq> [])"
| "truthy (PDict kvs) = (kvs \<noteq> [])"

text \<open>\<open>d.get(k)\<close> and \<open>d.get(k, default)\<close> on a dict.\<close>

definition dict_get_default :: "pydict \<Rightarrow> string \<Rightarrow> pyval \<Rightarrow> pyval" where
  "dict_get_default d k dflt = (case map_of d k of None \<Rightarrow> dflt | Some v \<Rightarrow> v)"

definition dict_get :: "pydict \<Rightarrow> string \<Rightarrow> pyval" where
  "dict_get d k = dict_get_default d k PNone"

text \<open>\<open>v.get(k, default)\<close> on any value: only a dict has the method.\<close>

fun py_get_default :: "pyval \<Rightarrow> string \<Rightarrow> pyval \<Rightarrow> error + pyval" where
  "py_get_default (PDict d) k dflt = Inr (dict_get_default d k dflt)"
| "py_get_default _ k dflt = Inl NoGetAttribute"

text \<open>
  What \<open>for x in v\<close> and \<open>list.extend(v)\<close> iterate over: the elements of a list, the
  keys of a dict, the one-character strings of a \<open>str\<close>, the integers of a \<open>bytes\<close>;
  any other value is not iterable.
\<close>

fun py_iter :: "pyval \<Rightarrow> error + pyval list" where
  "py_iter (PList xs) = Inr xs"
| "py_iter (PDict kvs) = Inr (map (\<lambda>kv. PStr (fst kv)) kvs)"
| "py_iter (PStr s) = Inr (map (\<lambda>c. PStr [c]) s)"
| "py_iter (PBytes s) = Inr (map (\<lambda>c. PInt (of_char c)) s)"
| "py_iter _ = Inl NotIterable"

subsection \<open>The Batcher: \<open>chunked\<close>\<close>

text \<open>
  \<^verbatim>\<open>
  def chunked(iterable, size):
      chunk = []
      for line in iterable:
          chunk.append(line)
          if len(chunk) >= size * 2:  # two lines per document
              yield chunk
              chunk = []
      if chunk:
          yield chunk
  \<close>
  The loop is a recursion over the remaining lines, carrying the \<open>chunk\<close> under
  construction; the result is the list of the chunks yielded, in order. \<open>size\<close> is a
  Python \<open>int\<close>: nothing in the function rejects zero or a negative number.
\<close>

fun chunked_loop :: "'a list \<Rightarrow> int \<Rightarrow> 'a list \<Rightarrow> 'a list list" where
  "chunked_loop [] sz chunk = (if chunk \<noteq> [] then [chunk] else [])"
| "chunked_loop (line # rest) sz chunk =
     (let chunk' = chunk @ [line]
      in if int (length chunk') \<ge> sz * 2
         then chunk' # chunked_loop rest sz []
         else chunked_loop rest sz chunk')"

definition chunked :: "'a list \<Rightarrow> int \<Rightarrow> 'a list list" where
  "chunked iterable sz = chunked_loop iterable sz []"

subsection \<open>The Line Encoder: \<open>make_bulk_lines\<close>\<close>

text \<open>
  \<^verbatim>\<open>
  def make_bulk_lines(actions, index_name):
      for doc in actions:
          doc_id = doc.get("product_id") or doc.get("promotion_id")
          meta = {"index": {"_index": index_name}}
          if doc_id:
              meta["index"]["_id"] = doc_id
          yield json.dumps(meta, ensure_ascii=False)
          yield json.dumps(doc, ensure_ascii=False)
  \<close>
  \<open>json.dumps\<close> is the library's serializer, taken as a parameter: it returns the text,
  or \<open>None\<close> where the library raises. \<open>a or b\<close> is \<open>a\<close> when \<open>a\<close> is truthy and \<open>b\<close>
  otherwise. The generator's only caller takes \<open>list(...)\<close> of it, so the model returns
  the whole list of lines, or the exception that the first failing step raises.
\<close>

type_synonym serializer = "pyval \<Rightarrow> string option"

definition doc_id :: "pydict \<Rightarrow> pyval" where
  "doc_id doc =
     (let p = dict_get doc ''product_id''
      in if truthy p then p else dict_get doc ''promotion_id'')"

definition bulk_meta :: "pydict \<Rightarrow> string \<Rightarrow> pyval" where
  "bulk_meta doc index_name =
     (let i = doc_id doc
      in PDict [(''index'',
           PDict ((''_index'', PStr index_name) # (if truthy i then [(''_id'', i)] else [])))])"

fun make_bulk_lines_loop :: "serializer \<Rightarrow> pyval list \<Rightarrow> string \<Rightarrow> error + string list" where
  "make_bulk_lines_loop dumps [] index_name = Inr []"
| "make_bulk_lines_loop dumps (PDict doc # rest) index_name =
     (case dumps (bulk_meta doc index_name) of
        None \<Rightarrow> Inl NotSerializable
      | Some action \<Rightarrow>
          (case dumps (PDict doc) of
             None \<Rightarrow> Inl NotSerializable
           | Some body \<Rightarrow>
               (case make_bulk_lines_loop dumps rest index_name of
                  Inl e \<Rightarrow> Inl e
                | Inr ls \<Rightarrow> Inr (action # body # ls))))"
| "make_bulk_lines_loop dumps (_ # rest) index_name = Inl NoGetAttribute"

definition make_bulk_lines :: "serializer \<Rightarrow> pyval \<Rightarrow> string \<Rightarrow> error + string list" where
  "make_bulk_lines dumps actions index_name =
     (case py_iter actions of
        Inl e \<Rightarrow> Inl e
      | Inr docs \<Rightarrow> make_bulk_lines_loop dumps docs index_name)"

subsection \<open>The Transport: \<open>send_bulk\<close>\<close>

text \<open>
  \<^verbatim>\<open>
  def send_bulk(es_url, api_key, lines, timeout):
      endpoint = f"{es_url.rstrip('/')}/_bulk"
      data = "\n".join(lines) + "\n"
      headers = {
          "Content-Type": "application/x-ndjson",
          "Authorization": f"ApiKey {api_key}",
      }
      response = requests.post(endpoint, headers=headers, data=data.encode("utf-8"), timeout=timeout)
      try:
          response.raise_for_status()
      except requests.HTTPError as exc:
          raise SystemExit(f"Bulk request failed: {exc}\n{response.text}") from exc
      return response.json()
  \<close>
  The network is a parameter: \<open>post\<close> maps the requests made so far and the new request
  to what \<open>requests.post\<close> does, which is to raise (connection failure, timeout) or to
  return a response. A response carries its status, its text and, when the text is
  JSON, the decoded value. \<open>Response.raise_for_status\<close> of the \<open>requests\<close> library raises
  \<open>HTTPError\<close> for a status from 400 to 599 and for no other. \<open>send_bulk\<close> returns the
  requests made, with its own added, and what it returns or raises; \<open>bulk_result\<close> is
  what it makes of the reply (from \<open>raise_for_status\<close> on).
\<close>

record request =
  req_url :: string
  req_headers :: "(string \<times> string) list"
  req_data :: string
  req_timeout :: int

record response =
  status_code :: int
  reason :: string
  resp_url :: string
  resp_text :: string
  resp_json :: "pyval option"

datatype reply = Raises req_exc | Returns response

type_synonym transport = "request list \<Rightarrow> request \<Rightarrow> reply"

fun show_nat :: "nat \<Rightarrow> string" where
  "show_nat n =
     (if n < 10 then [char_of (48 + n)] else show_nat (n div 10) @ [char_of (48 + n mod 10)])"

declare show_nat.simps [simp del]

definition show_int :: "int \<Rightarrow> string" where
  "show_int i = (if i < 0 then ''-'' @ show_nat (nat (- i)) else show_nat (nat i))"

definition rstrip :: "string \<Rightarrow> char \<Rightarrow> string" where
  "rstrip s c = rev (dropWhile (\<lambda>x. x = c) (rev s))"

fun join :: "string \<Rightarrow> string list \<Rightarrow> string" where
  "join sep [] = []"
| "join sep [x] = x"
| "join sep (x # y # ys) = x @ sep @ join sep (y # ys)"

definition raise_for_status :: "response \<Rightarrow> string option" where
  "raise_for_status r =
     (if 400 \<le> status_code r \<and> status_code r < 500
      then Some (show_int (status_code r) @ '' Client Error: '' @ reason r
                 @ '' for url: '' @ resp_url r)
      else if 500 \<le> status_code r \<and> status_code r < 600
      then Some (show_int (status_code r) @ '' Server Error: '' @ reason r
                 @ '' for url: '' @ resp_url r)
      else None)"

definition bulk_request :: "string \<Rightarrow> string \<Rightarrow> string list \<Rightarrow> int \<Rightarrow> request" where
  "bulk_request es_url api_key lines tmo =
     \<lparr>req_url = rstrip es_url (CHR ''/'') @ ''/_bulk'',
      req_headers = [(''Content-Type'', ''application/x-ndjson''),
                     (''Authorization'', ''ApiKey '' @ api_key)],
      req_data = join [CHR 0x0A] lines @ [CHR 0x0A],
      req_timeout = tmo\<rparr>"

definition bulk_result :: "reply \<Rightarrow> error + pyval" where
  "bulk_result rp =
     (case rp of
        Raises x \<Rightarrow> Inl (RequestException x)
      | Returns response \<Rightarrow>
          (case raise_for_status response of
             Some exc \<Rightarrow>
               Inl (BulkRequestFailed
                      (''Bulk request failed: '' @ exc @ [CHR 0x0A] @ resp_text response))
           | None \<Rightarrow>
               (case resp_json response of
                  None \<Rightarrow> Inl JSONDecodeError
                | Some v \<Rightarrow> Inr v)))"

definition send_bulk ::
  "transport \<Rightarrow> request list \<Rightarrow> string \<Rightarrow> string \<Rightarrow> string list \<Rightarrow> int
     \<Rightarrow> request list \<times> (error + pyval)" where
  "send_bulk post made es_url api_key lines tmo =
     (let rq = bulk_request es_url api_key lines tmo
      in (made @ [rq], bulk_result (post made rq)))"

subsection \<open>The Orchestrator and the Result Aggregator: \<open>import_documents\<close>\<close>

text \<open>
  \<^verbatim>\<open>
  def import_documents(dataset, es_url, api_key, products_index, promotions_index,
                       chunk_size, timeout, skip_promotions):
      products = dataset.get("products", [])
      promotions = dataset.get("promotions", []) if not skip_promotions else []

      product_lines = list(make_bulk_lines(products, products_index))
      promotion_lines = list(make_bulk_lines(promotions, promotions_index)) if promotions else []

      batches_sent = 0
      errors = []

      for batch in chunked(product_lines, chunk_size):
          result = send_bulk(es_url, api_key, batch, timeout)
          batches_sent += 1
          errors.extend(result.get("items", []))

      for batch in chunked(promotion_lines, chunk_size):
          result = send_bulk(es_url, api_key, batch, timeout)
          batches_sent += 1
          errors.extend(result.get("items", []))

      failed = [item for item in errors if item.get("index", {}).get("error")]
      print(f"Bulk import finished. Batches sent: {batches_sent}.")
      if failed:
          print(f"Documents with errors: {len(failed)}")
          print(json.dumps(failed[:5], indent=2, ensure_ascii=False))
      else:
          print("All documents indexed without reported errors.")
  \<close>
  The state of the two loops is the list of requests made, \<open>batches_sent\<close> and
  \<open>errors\<close>. A run ends with the requests it made, the lines it printed and the
  exception that left it, if any. \<open>chunked\<close> is a generator over a list that is
  already complete, and computes without effects: taking its batches as a list
  before the loop changes nothing that can be observed. \<open>result_items\<close> is what
  \<open>errors.extend(result.get("items", []))\<close> appends.
\<close>

record progress =
  calls :: "request list"
  batches_sent :: int
  errors :: "pyval list"

record run =
  requests_made :: "request list"
  printed :: "string list"
  raised :: "error option"

definition product_lines :: "serializer \<Rightarrow> pydict \<Rightarrow> string \<Rightarrow> error + string list" where
  "product_lines dumps dataset products_index =
     (let products = dict_get_default dataset ''products'' (PList [])
      in make_bulk_lines dumps products products_index)"

definition promotion_lines ::
  "serializer \<Rightarrow> pydict \<Rightarrow> string \<Rightarrow> bool \<Rightarrow> error + string list" where
  "promotion_lines dumps dataset promotions_index skip_promotions =
     (let promotions = (if \<not> skip_promotions
                        then dict_get_default dataset ''promotions'' (PList [])
                        else PList [])
      in if truthy promotions then make_bulk_lines dumps promotions promotions_index
         else Inr [])"

definition result_items :: "pyval \<Rightarrow> error + pyval list" where
  "result_items result =
     (case py_get_default result ''items'' (PList []) of
        Inl e \<Rightarrow> Inl e
      | Inr items \<Rightarrow> py_iter items)"

fun send_batches ::
  "transport \<Rightarrow> string \<Rightarrow> string \<Rightarrow> int \<Rightarrow> string list list \<Rightarrow> progress
     \<Rightarrow> progress \<times> error option" where
  "send_batches post es_url api_key tmo [] st = (st, None)"
| "send_batches post es_url api_key tmo (batch # rest) st =
     (case send_bulk post (calls st) es_url api_key batch tmo of
        (made, Inl e) \<Rightarrow> (st\<lparr>calls := made\<rparr>, Some e)
      | (made, Inr result) \<Rightarrow>
          (let st1 = st\<lparr>calls := made, batches_sent := batches_sent st + 1\<rparr>
           in case result_items result of
                Inl e \<Rightarrow> (st1, Some e)
              | Inr xs \<Rightarrow>
                  send_batches post es_url api_key tmo rest
                    (st1\<lparr>errors := errors st1 @ xs\<rparr>)))"

definition item_failed :: "pyval \<Rightarrow> error + bool" where
  "item_failed item =
     (case py_get_default item ''index'' (PDict []) of
        Inl e \<Rightarrow> Inl e
      | Inr v \<Rightarrow>
          (case py_get_default v ''error'' PNone of
             Inl e \<Rightarrow> Inl e
           | Inr detail \<Rightarrow> Inr (truthy detail)))"

fun failed_items :: "pyval list \<Rightarrow> error + pyval list" where
  "failed_items [] = Inr []"
| "failed_items (item # rest) =
     (case item_failed item of
        Inl e \<Rightarrow> Inl e
      | Inr b \<Rightarrow>
          (case failed_items rest of
             Inl e \<Rightarrow> Inl e
           | Inr fs \<Rightarrow> Inr (if b then item # fs else fs)))"

definition aborted :: "request list \<Rightarrow> error \<Rightarrow> run" where
  "aborted made e = \<lparr>requests_made = made, printed = [], raised = Some e\<rparr>"

definition summarize :: "serializer \<Rightarrow> progress \<Rightarrow> run" where
  "summarize dumps_indent st =
     (case failed_items (errors st) of
        Inl e \<Rightarrow> aborted (calls st) e
      | Inr failed \<Rightarrow>
          (let l1 = ''Bulk import finished. Batches sent: '' @ show_int (batches_sent st) @ ''.''
           in if failed \<noteq> []
              then (let l2 = ''Documents with errors: '' @ show_int (int (length failed))
                    in case dumps_indent (PList (take 5 failed)) of
                         None \<Rightarrow> \<lparr>requests_made = calls st, printed = [l1, l2],
                                  raised = Some NotSerializable\<rparr>
                       | Some sample \<Rightarrow> \<lparr>requests_made = calls st, printed = [l1, l2, sample],
                                  raised = None\<rparr>)
              else \<lparr>requests_made = calls st,
                    printed = [l1, ''All documents indexed without reported errors.''],
                    raised = None\<rparr>))"

definition import_documents ::
  "serializer \<Rightarrow> serializer \<Rightarrow> transport \<Rightarrow> pydict \<Rightarrow> string \<Rightarrow> string \<Rightarrow> string \<Rightarrow> string
     \<Rightarrow> int \<Rightarrow> int \<Rightarrow> bool \<Rightarrow> run" where
  "import_documents dumps dumps_indent post dataset es_url api_key products_index
       promotions_index chunk_size tmo skip_promotions =
     (case product_lines dumps dataset products_index of
        Inl e \<Rightarrow> aborted [] e
      | Inr plines \<Rightarrow>
          (case promotion_lines dumps dataset promotions_index skip_promotions of
             Inl e \<Rightarrow> aborted [] e
           | Inr qlines \<Rightarrow>
               (case send_batches post es_url api_key tmo (chunked plines chunk_size)
                       \<lparr>calls = [], batches_sent = 0, errors = []\<rparr> of
                  (st1, Some e) \<Rightarrow> aborted (calls st1) e
                | (st1, None) \<Rightarrow>
                    (case send_batches post es_url api_key tmo (chunked qlines chunk_size) st1 of
                       (st2, Some e) \<Rightarrow> aborted (calls st2) e
                     | (st2, None) \<Rightarrow> summarize dumps_indent st2))))"

subsection \<open>The library's serializer on these values\<close>

text \<open>
  \<open>json.dumps(v, ensure_ascii=False)\<close> and \<open>json.dumps(v, indent=2, ensure_ascii=False)\<close>
  of Python's standard library, on the values above: the escapes of a string are those
  of the quote, the backslash and the control characters, lists and dicts are joined
  with \<open>", "\<close> (with \<open>","\<close>, a newline and the indentation when \<open>indent\<close> is given), and
  \<open>bytes\<close> raise \<open>TypeError\<close>.
\<close>

definition hex_digit :: "nat \<Rightarrow> char" where
  "hex_digit n = ''0123456789abcdef'' ! (n mod 16)"

definition escape_char :: "char \<Rightarrow> string" where
  "escape_char c =
     (if c = CHR 0x5C then [CHR 0x5C, CHR 0x5C]
      else if c = CHR 0x22 then [CHR 0x5C, CHR 0x22]
      else if c = CHR 0x08 then [CHR 0x5C, CHR ''b'']
      else if c = CHR 0x0C then [CHR 0x5C, CHR ''f'']
      else if c = CHR 0x0A then [CHR 0x5C, CHR ''n'']
      else if c = CHR 0x0D then [CHR 0x5C, CHR ''r'']
      else if c = CHR 0x09 then [CHR 0x5C, CHR ''t'']
      else if (of_char c :: nat) < 32
      then [CHR 0x5C, CHR ''u'', CHR ''0'', CHR ''0'',
            hex_digit (of_char c div 16), hex_digit (of_char c)]
      else [c])"

definition encode_str :: "string \<Rightarrow> string" where
  "encode_str s = [CHR 0x22] @ concat (map escape_char s) @ [CHR 0x22]"

definition newline_indent :: "nat option \<Rightarrow> nat \<Rightarrow> string" where
  "newline_indent indent level =
     (case indent of None \<Rightarrow> [] | Some k \<Rightarrow> CHR 0x0A # replicate (k * level) (CHR '' ''))"

definition item_separator :: "nat option \<Rightarrow> nat \<Rightarrow> string" where
  "item_separator indent level =
     (case indent of None \<Rightarrow> '', '' | Some k \<Rightarrow> '','' @ newline_indent indent level)"

fun json_encode :: "nat option \<Rightarrow> nat \<Rightarrow> pyval \<Rightarrow> string option"
  and json_encode_list :: "nat option \<Rightarrow> nat \<Rightarrow> pyval list \<Rightarrow> string list option"
  and json_encode_items :: "nat option \<Rightarrow> nat \<Rightarrow> (string \<times> pyval) list \<Rightarrow> string list option"
where
  "json_encode indent level PNone = Some ''null''"
| "json_encode indent level (PBool b) = Some (if b then ''true'' else ''false'')"
| "json_encode indent level (PInt i) = Some (show_int i)"
| "json_encode indent level (PStr s) = Some (encode_str s)"
| "json_encode indent level (PBytes s) = None"
| "json_encode indent level (PList xs) =
     (if xs = [] then Some ''[]''
      else map_option
             (\<lambda>parts. ''['' @ newline_indent indent (level + 1)
                       @ join (item_separator indent (level + 1)) parts
                       @ newline_indent indent level @ '']'')
             (json_encode_list indent (level + 1) xs))"
| "json_encode indent level (PDict kvs) =
     (if kvs = [] then Some ''{}''
      else map_option
             (\<lambda>parts. ''{'' @ newline_indent indent (level + 1)
                       @ join (item_separator indent (level + 1)) parts
                       @ newline_indent indent level @ ''}'')
             (json_encode_items indent (level + 1) kvs))"
| "json_encode_list indent level [] = Some []"
| "json_encode_list indent level (x # xs) =
     (case json_encode indent level x of
        None \<Rightarrow> None
      | Some s \<Rightarrow> map_option ((#) s) (json_encode_list indent level xs))"
| "json_encode_items indent level [] = Some []"
| "json_encode_items indent level ((k, v) # kvs) =
     (case json_encode indent level v of
        None \<Rightarrow> None
      | Some s \<Rightarrow> map_option ((#) (encode_str k @ '': '' @ s))
                    (json_encode_items indent level kvs))"

definition json_dumps :: serializer where
  "json_dumps v = json_encode None 0 v"

definition json_dumps_indent2 :: serializer where
  "json_dumps_indent2 v = json_encode (Some 2) 0 v"

subsection \<open>Test doubles and sample data\<close>

text \<open>
  Networks and datasets for the examples: a response with a JSON body, a network that
  accepts everything, one that answers the first request with status 300, one
  that is unavailable at the second request, one that reports a rejected document,
  one whose results hold an item with a null \<open>index\<close> entry; a dataset of three products (the third without identity) and one promotion, a
  product whose identity fields are falsy, and a product that holds \<open>bytes\<close>.
\<close>

definition json_response :: "int \<Rightarrow> string \<Rightarrow> pyval \<Rightarrow> response" where
  "json_response status why v =
     \<lparr>status_code = status, reason = why, resp_url = ''http://es:9200/_bulk'',
      resp_text = (case json_dumps v of None \<Rightarrow> [] | Some s \<Rightarrow> s),
      resp_json = Some v\<rparr>"

definition no_items :: pyval where
  "no_items = PDict [(''errors'', PBool False), (''items'', PList [])]"

definition always_ok :: transport where
  "always_ok made rq = Returns (json_response 200 ''OK'' no_items)"

definition multiple_choices_first :: transport where
  "multiple_choices_first made rq =
     (if made = [] then Returns (json_response 300 ''Multiple Choices'' no_items)
      else Returns (json_response 200 ''OK'' no_items))"

definition unavailable_response :: response where
  "unavailable_response =
     \<lparr>status_code = 503, reason = ''Service Unavailable'', resp_url = ''http://es:9200/_bulk'',
      resp_text = ''try again later'', resp_json = None\<rparr>"

definition unavailable_second :: transport where
  "unavailable_second made rq =
     (if length made = 1 then Returns unavailable_response
      else Returns (json_response 200 ''OK'' no_items))"

definition accepted_item :: pyval where
  "accepted_item = PDict [(''index'', PDict [(''status'', PInt 201)])]"

definition rejected_item :: pyval where
  "rejected_item =
     PDict [(''index'', PDict [(''status'', PInt 400), (''error'', PStr ''mapping conflict'')])]"

definition one_rejected :: transport where
  "one_rejected made rq =
     Returns (json_response 200 ''OK''
       (PDict [(''errors'', PBool True),
               (''items'', PList [accepted_item, accepted_item, rejected_item,
                                  accepted_item, accepted_item])]))"

definition null_index_item :: pyval where
  "null_index_item = PDict [(''index'', PNone)]"

definition null_index :: transport where
  "null_index made rq =
     Returns (json_response 200 ''OK''
       (PDict [(''errors'', PBool False),
               (''items'', PList [accepted_item, null_index_item])]))"

definition three_products :: pydict where
  "three_products =
     [(''products'', PList [PDict [(''product_id'', PStr ''p1'')],
                            PDict [(''product_id'', PStr ''p2'')],
                            PDict [(''name'', PStr ''oats'')]]),
      (''promotions'', PList [PDict [(''promotion_id'', PStr ''q1'')]])]"

definition three_products_lines :: "string list" where
  "three_products_lines =
     [''{\"index\": {\"_index\": \"products\", \"_id\": \"p1\"}}'',
      ''{\"product_id\": \"p1\"}'',
      ''{\"index\": {\"_index\": \"products\", \"_id\": \"p2\"}}'',
      ''{\"product_id\": \"p2\"}'',
      ''{\"index\": {\"_index\": \"products\"}}'',
      ''{\"name\": \"oats\"}'']"

definition falsy_identity :: pydict where
  "falsy_identity = [(''product_id'', PStr []), (''promotion_id'', PInt 0)]"

definition bytes_product :: pydict where
  "bytes_product =
     [(''products'', PList [PDict [(''product_id'', PStr ''p1'')],
                            PDict [(''image'', PBytes ''raw'')]])]"

definition sample_run :: "transport \<Rightarrow> pydict \<Rightarrow> int \<Rightarrow> bool \<Rightarrow> run" where
  "sample_run post dataset chunk_size skip_promotions =
     import_documents json_dumps json_dumps_indent2 post dataset ''http://es:9200/'' ''key''
       ''products'' ''promotions'' chunk_size 60 skip_promotions"

subsection \<open>Observing a run\<close>

text \<open>
  What call number \<open>i\<close> of a list of requests got back: the network's reply to it after
  the requests before it, as \<open>send_bulk\<close> reads it, and the per-item outcomes taken from
  the result. An outcome record is a per-item outcome of the shape the sink gives it:
  a dict whose \<open>index\<close> entry, when it has one, is a dict.
\<close>

definition outcome_record :: "pyval \<Rightarrow> bool" where
  "outcome_record item =
     (case item of
        PDict d \<Rightarrow>
          (case dict_get_default d ''index'' (PDict []) of PDict ix \<Rightarrow> True | _ \<Rightarrow> False)
      | _ \<Rightarrow> False)"

definition call_result :: "transport \<Rightarrow> request list \<Rightarrow> nat \<Rightarrow> error + pyval" where
  "call_result post cs i = bulk_result (post (take i cs) (cs ! i))"

definition call_items :: "transport \<Rightarrow> request list \<Rightarrow> nat \<Rightarrow> error + pyval list" where
  "call_items post cs i =
     (case call_result post cs i of Inl e \<Rightarrow> Inl e | Inr v \<Rightarrow> result_items v)"

text \<open>
  The reference the Batcher is compared with: cut a list into consecutive slices of
  \<open>n\<close> elements, the last one holding what is left.
\<close>

function slices :: "nat \<Rightarrow> 'a list \<Rightarrow> 'a list list" where
  "slices n xs = (if n = 0 \<or> xs = [] then [] else take n xs # slices n (drop n xs))"
  by pat_completeness auto
termination
  by (relation "measure (\<lambda>(n, xs). length xs)") auto

declare slices.simps [simp del]

section \<open>Properties\<close>

subsection \<open>Slices\<close>

lemma slices_Nil: "slices n [] = []"
  by (simp add: slices.simps)

lemma slices_step: "0 < n \<Longrightarrow> xs \<noteq> [] \<Longrightarrow> slices n xs = take n xs # slices n (drop n xs)"
  by (subst slices.simps) simp

lemma slices_short: "0 < n \<Longrightarrow> xs \<noteq> [] \<Longrightarrow> length xs \<le> n \<Longrightarrow> slices n xs = [xs]"
  by (simp add: slices_step slices_Nil)

lemma concat_slices: "0 < n \<Longrightarrow> concat (slices n xs) = xs"
proof (induction n xs rule: slices.induct)
  case (1 n xs)
  show ?case
  proof (cases "xs = []")
    case True
    then show ?thesis by (simp add: slices_Nil)
  next
    case False
    with 1 show ?thesis by (simp add: slices_step)
  qed
qed

lemma length_slices: "0 < n \<Longrightarrow> length (slices n xs) = (length xs + n - 1) div n"
proof (induction n xs rule: slices.induct)
  case (1 n xs)
  show ?case
  proof (cases "xs = []")
    case True
    with 1(2) show ?thesis by (simp add: slices_Nil)
  next
    case False
    then have pos: "0 < length xs" by simp
    have ih: "length (slices n (drop n xs)) = (length xs - n + n - 1) div n"
      using 1 False by simp
    show ?thesis
    proof (cases "length xs \<le> n")
      case True
      define L where "L = length xs"
      from True pos have "0 < L" "L \<le> n" by (simp_all add: L_def)
      then have "(L + n - 1) div n = 1"
        by (intro div_nat_eqI) auto
      then have "(length xs + n - 1) div n = 1" by (simp add: L_def)
      with True ih False 1(2) show ?thesis by (simp add: slices_step)
    next
      case False
      then have "length xs + n - 1 = (length xs - n + n - 1) + n" by simp
      then have "(length xs + n - 1) div n = (length xs - n + n - 1) div n + 1"
        using 1(2) by (metis div_add_self2 less_numeral_extra(3))
      with ih \<open>xs \<noteq> []\<close> 1(2) show ?thesis by (simp add: slices_step)
    qed
  qed
qed

lemma nth_slices:
  "0 < n \<Longrightarrow> i < length (slices n xs) \<Longrightarrow> slices n xs ! i = take n (drop (i * n) xs)"
proof (induction n xs arbitrary: i rule: slices.induct)
  case (1 n xs)
  from 1(3) have ne: "xs \<noteq> []" by (auto simp: slices_Nil)
  show ?case
  proof (cases i)
    case 0
    with ne 1(2) show ?thesis by (simp add: slices_step)
  next
    case (Suc j)
    with 1(3) ne 1(2) have "j < length (slices n (drop n xs))" by (simp add: slices_step)
    with 1(1) ne 1(2) have "slices n (drop n xs) ! j = take n (drop (j * n) (drop n xs))"
      by simp
    with Suc ne 1(2) show ?thesis by (simp add: slices_step add.commute)
  qed
qed

subsection \<open>The Batcher cuts slices of \<open>2 * size\<close> lines\<close>

lemma chunked_loop_slices:
  assumes "0 < sz"
  shows "length chunk < nat (2 * sz) \<Longrightarrow>
         chunked_loop xs sz chunk = slices (nat (2 * sz)) (chunk @ xs)"
proof (induction xs arbitrary: chunk)
  case Nil
  then show ?case using assms by (simp add: slices_Nil slices_short)
next
  case (Cons x xs)
  let ?n = "nat (2 * sz)"
  have npos: "0 < ?n" using assms by simp
  show ?case
  proof (cases "int (length (chunk @ [x])) \<ge> sz * 2")
    case True
    with Cons.prems have len: "length (chunk @ [x]) = ?n" by simp
    then have "?n - length chunk = Suc 0" by simp
    then have "take ?n (chunk @ x # xs) = chunk @ [x]" "drop ?n (chunk @ x # xs) = xs"
      by simp_all
    then have "slices ?n (chunk @ x # xs) = (chunk @ [x]) # slices ?n xs"
      using npos by (simp add: slices_step)
    moreover have "chunked_loop xs sz [] = slices ?n ([] @ xs)"
      using Cons.IH [of "[]"] npos by simp
    ultimately show ?thesis using True by (simp add: Let_def)
  next
    case False
    then have "length (chunk @ [x]) < ?n" by simp
    from Cons.IH [OF this] False show ?thesis by (simp add: Let_def)
  qed
qed

lemma chunked_slices: "0 < sz \<Longrightarrow> chunked xs sz = slices (nat (2 * sz)) xs"
  using chunked_loop_slices [of sz "[]" xs] by (simp add: chunked_def)

lemma chunked_Nil: "chunked [] sz = []"
  by (simp add: chunked_def)

lemma chunked_loop_nonpositive:
  "sz \<le> 0 \<Longrightarrow> chunked_loop xs sz [] = map (\<lambda>l. [l]) xs"
  by (induction xs) (simp_all add: Let_def)

lemma ceiling_div_nat:
  assumes "0 < n"
  shows "nat \<lceil>real L / real n\<rceil> = (L + n - 1) div n"
proof -
  define q where "q = (L + n - 1) div n"
  have "q * n \<le> L + n - 1" by (simp add: q_def)
  moreover have "L + n - 1 < n + q * n"
    unfolding q_def using assms by (rule dividend_less_div_times)
  ultimately have nat_bounds: "L \<le> q * n" "q * n < L + n"
    using assms by linarith+
  from nat_bounds(1) have "real L \<le> real q * real n"
    by (metis of_nat_le_iff of_nat_mult)
  then have up: "real L / real n \<le> real q"
    using assms by (simp add: pos_divide_le_eq)
  from nat_bounds(2) have "real q * real n < real L + real n"
    by (metis of_nat_less_iff of_nat_mult of_nat_add)
  then have lo: "real q - 1 < real L / real n"
    using assms by (simp add: field_simps)
  have "\<lceil>real L / real n\<rceil> = int q"
    by (rule ceiling_unique) (use up lo in simp_all)
  then show ?thesis by (simp add: q_def)
qed

subsection \<open>The two sending loops\<close>

lemma call_items_last:
  "call_items post (cs @ rq # ds) (length cs) =
     (case bulk_result (post cs rq) of Inl e \<Rightarrow> Inl e | Inr v \<Rightarrow> result_items v)"
  by (simp add: call_items_def call_result_def)

lemma send_batches_None:
  "send_batches post u k t bs st = (st', None) \<Longrightarrow>
     calls st' = calls st @ map (\<lambda>b. bulk_request u k b t) bs
   \<and> batches_sent st' = batches_sent st + int (length bs)
   \<and> (\<exists>iss. length iss = length bs \<and> errors st' = errors st @ concat iss
        \<and> (\<forall>j<length bs. call_items post (calls st') (length (calls st) + j) = Inr (iss ! j)))"
proof (induction bs arbitrary: st)
  case Nil
  then show ?case by simp
next
  case (Cons b bs)
  let ?rq = "bulk_request u k b t"
  from Cons.prems obtain v xs where
    v: "bulk_result (post (calls st) ?rq) = Inr v" and
    xs: "result_items v = Inr xs" and
    rest: "send_batches post u k t bs
             (st\<lparr>calls := calls st @ [?rq], batches_sent := batches_sent st + 1,
                 errors := errors st @ xs\<rparr>) = (st', None)"
    by (auto simp: send_bulk_def Let_def split: sum.splits)
  let ?st2 = "st\<lparr>calls := calls st @ [?rq], batches_sent := batches_sent st + 1,
                 errors := errors st @ xs\<rparr>"
  from Cons.IH [OF rest] obtain iss where
    c: "calls st' = calls ?st2 @ map (\<lambda>b. bulk_request u k b t) bs" and
    n: "batches_sent st' = batches_sent ?st2 + int (length bs)" and
    l: "length iss = length bs" and
    e: "errors st' = errors ?st2 @ concat iss" and
    i: "\<forall>j<length bs. call_items post (calls st') (length (calls ?st2) + j) = Inr (iss ! j)"
    by blast
  have c': "calls st' = calls st @ ?rq # map (\<lambda>b. bulk_request u k b t) bs"
    using c by simp
  have first: "call_items post (calls st') (length (calls st)) = Inr xs"
    unfolding c' call_items_last using v xs by simp
  have each: "\<forall>j<length (b # bs).
      call_items post (calls st') (length (calls st) + j) = Inr ((xs # iss) ! j)"
  proof (intro allI impI)
    fix j assume j: "j < length (b # bs)"
    show "call_items post (calls st') (length (calls st) + j) = Inr ((xs # iss) ! j)"
    proof (cases j)
      case 0
      with first show ?thesis by simp
    next
      case (Suc j')
      with j i show ?thesis by simp
    qed
  qed
  have "length (xs # iss) = length (b # bs)" using l by simp
  moreover have "errors st' = errors st @ concat (xs # iss)" using e by simp
  ultimately have "\<exists>iss. length iss = length (b # bs) \<and> errors st' = errors st @ concat iss
        \<and> (\<forall>j<length (b # bs).
              call_items post (calls st') (length (calls st) + j) = Inr (iss ! j))"
    using each by blast
  with c' n show ?case by simp
qed

lemma send_batches_Some:
  "send_batches post u k t bs st = (st', Some e) \<Longrightarrow>
     \<exists>n<length bs. calls st' = calls st @ map (\<lambda>b. bulk_request u k b t) (take (Suc n) bs)
       \<and> (\<forall>j<n. \<exists>xs. call_items post (calls st') (length (calls st) + j) = Inr xs)
       \<and> call_items post (calls st') (length (calls st) + n) = Inl e"
proof (induction bs arbitrary: st)
  case Nil
  then show ?case by simp
next
  case (Cons b bs)
  let ?rq = "bulk_request u k b t"
  let ?f = "\<lambda>b. bulk_request u k b t"
  show ?case
  proof (cases "call_items post (calls st @ [?rq]) (length (calls st))")
    case (Inl e')
    with Cons.prems have "st' = st\<lparr>calls := calls st @ [?rq]\<rparr> \<or>
        st' = st\<lparr>calls := calls st @ [?rq], batches_sent := batches_sent st + 1\<rparr>" "e' = e"
      by (auto simp: send_bulk_def Let_def call_items_last split: sum.splits)
    then have "calls st' = calls st @ map ?f (take (Suc 0) (b # bs))"
      by auto
    moreover from this Inl \<open>e' = e\<close>
    have "call_items post (calls st') (length (calls st) + 0) = Inl e" by simp
    ultimately show ?thesis by (intro exI [of _ 0]) simp
  next
    case (Inr xs)
    then obtain v where
      v: "bulk_result (post (calls st) ?rq) = Inr v" and xs: "result_items v = Inr xs"
      by (auto simp: call_items_last split: sum.splits)
    let ?st2 = "st\<lparr>calls := calls st @ [?rq], batches_sent := batches_sent st + 1,
                 errors := errors st @ xs\<rparr>"
    from Cons.prems v xs have rest: "send_batches post u k t bs ?st2 = (st', Some e)"
      by (simp add: send_bulk_def Let_def)
    from Cons.IH [OF rest] obtain n where
      n: "n < length bs" and
      c: "calls st' = calls ?st2 @ map ?f (take (Suc n) bs)" and
      ok: "\<forall>j<n. \<exists>xs. call_items post (calls st') (length (calls ?st2) + j) = Inr xs" and
      bad: "call_items post (calls st') (length (calls ?st2) + n) = Inl e"
      by blast
    have c': "calls st' = calls st @ ?rq # map ?f (take (Suc n) bs)" using c by simp
    have first: "call_items post (calls st') (length (calls st)) = Inr xs"
      unfolding c' call_items_last using v xs by simp
    have "\<forall>j<Suc n. \<exists>xs. call_items post (calls st') (length (calls st) + j) = Inr xs"
    proof (intro allI impI)
      fix j assume "j < Suc n"
      then show "\<exists>xs. call_items post (calls st') (length (calls st) + j) = Inr xs"
        using first ok by (cases j) auto
    qed
    moreover have "call_items post (calls st') (length (calls st) + Suc n) = Inl e"
      using bad by simp
    moreover have "calls st' = calls st @ map ?f (take (Suc (Suc n)) (b # bs))"
      using c' by simp
    ultimately show ?thesis using n by (intro exI [of _ "Suc n"]) simp
  qed
qed

lemma call_items_take:
  "i < m \<Longrightarrow> call_items post (take m cs) i = call_items post cs i"
  by (simp add: call_items_def call_result_def min_def)

lemma import_documents_sent:
  assumes pl: "product_lines dumps ds pidx = Inr pl"
    and ql: "promotion_lines dumps ds qidx skip = Inr ql"
    and planned: "planned = map (\<lambda>b. bulk_request u k b t) (chunked pl c @ chunked ql c)"
    and r: "r = import_documents dumps di post ds u k pidx qidx c t skip"
  shows "(\<exists>e n. n < length planned \<and> r = aborted (take (Suc n) planned) e
            \<and> (\<forall>j<n. \<exists>xs. call_items post planned j = Inr xs)
            \<and> call_items post planned n = Inl e)
       \<or> (\<exists>st iss. calls st = planned \<and> batches_sent st = int (length planned)
            \<and> length iss = length planned \<and> errors st = concat iss
            \<and> (\<forall>i<length planned. call_items post planned i = Inr (iss ! i))
            \<and> r = summarize di st)"
proof -
  let ?f = "\<lambda>b. bulk_request u k b t"
  let ?P = "chunked pl c" and ?Q = "chunked ql c"
  let ?st0 = "\<lparr>calls = [], batches_sent = 0, errors = []\<rparr>"
  obtain st1 r1 where s1: "send_batches post u k t ?P ?st0 = (st1, r1)"
    by (cases "send_batches post u k t ?P ?st0") auto
  show ?thesis
  proof (cases r1)
    case (Some e)
    from send_batches_Some [OF s1 [unfolded Some]] obtain n where
      n: "n < length ?P" and
      c: "calls st1 = map ?f (take (Suc n) ?P)" and
      ok: "\<forall>j<n. \<exists>xs. call_items post (calls st1) j = Inr xs" and
      bad: "call_items post (calls st1) n = Inl e"
      by auto
    have tk: "calls st1 = take (Suc n) planned"
      using c n by (simp add: planned take_map)
    have "r = aborted (take (Suc n) planned) e"
      using pl ql s1 Some tk by (simp add: r import_documents_def)
    moreover have "\<forall>j<n. \<exists>xs. call_items post planned j = Inr xs"
      using ok by (simp add: tk call_items_take)
    moreover have "call_items post planned n = Inl e"
      using bad by (simp add: tk call_items_take)
    moreover have "n < length planned" using n by (simp add: planned)
    ultimately show ?thesis by blast
  next
    case None
    from send_batches_None [OF s1 [unfolded None]] obtain iss1 where
      c1: "calls st1 = map ?f ?P" and
      b1: "batches_sent st1 = int (length ?P)" and
      l1: "length iss1 = length ?P" and
      e1: "errors st1 = concat iss1" and
      i1: "\<forall>j<length ?P. call_items post (calls st1) j = Inr (iss1 ! j)"
      by auto
    have pre: "calls st1 = take (length ?P) planned" using c1 by (simp add: planned)
    have i1': "\<forall>j<length ?P. call_items post planned j = Inr (iss1 ! j)"
    proof (intro allI impI)
      fix j assume j: "j < length ?P"
      then have "call_items post (take (length ?P) planned) j = call_items post planned j"
        by (rule call_items_take)
      with i1 j pre show "call_items post planned j = Inr (iss1 ! j)" by simp
    qed
    obtain st2 r2 where s2: "send_batches post u k t ?Q st1 = (st2, r2)"
      by (cases "send_batches post u k t ?Q st1") auto
    show ?thesis
    proof (cases r2)
      case (Some e)
      from send_batches_Some [OF s2 [unfolded Some]] obtain n where
        n: "n < length ?Q" and
        c: "calls st2 = calls st1 @ map ?f (take (Suc n) ?Q)" and
        ok: "\<forall>j<n. \<exists>xs. call_items post (calls st2) (length (calls st1) + j) = Inr xs" and
        bad: "call_items post (calls st2) (length (calls st1) + n) = Inl e"
        by auto
      let ?m = "length ?P + n"
      have tk: "calls st2 = take (Suc ?m) planned"
        using c c1 n by (simp add: planned take_map)
      have "r = aborted (take (Suc ?m) planned) e"
        using pl ql s1 None s2 Some tk by (simp add: r import_documents_def)
      moreover have "\<forall>j<?m. \<exists>xs. call_items post planned j = Inr xs"
      proof (intro allI impI)
        fix j assume j: "j < ?m"
        show "\<exists>xs. call_items post planned j = Inr xs"
        proof (cases "j < length ?P")
          case True
          with i1' show ?thesis by blast
        next
          case False
          then obtain j' where j': "j = length ?P + j'" "j' < n"
            using j by (metis add_diff_inverse_nat nat_add_left_cancel_less)
          with ok c1 obtain xs where "call_items post (calls st2) j = Inr xs" by auto
          moreover have "call_items post (take (Suc ?m) planned) j = call_items post planned j"
            using j by (intro call_items_take) simp
          ultimately show ?thesis using tk by auto
        qed
      qed
      moreover have "call_items post planned ?m = Inl e"
      proof -
        have "call_items post (take (Suc ?m) planned) ?m = call_items post planned ?m"
          by (intro call_items_take) simp
        with bad c1 tk show ?thesis by simp
      qed
      moreover have "?m < length planned" using n by (simp add: planned)
      ultimately show ?thesis by blast
    next
      case None2: None
      from send_batches_None [OF s2 [unfolded None2]] obtain iss2 where
        c2: "calls st2 = calls st1 @ map ?f ?Q" and
        b2: "batches_sent st2 = batches_sent st1 + int (length ?Q)" and
        l2: "length iss2 = length ?Q" and
        e2: "errors st2 = errors st1 @ concat iss2" and
        i2: "\<forall>j<length ?Q. call_items post (calls st2) (length (calls st1) + j) = Inr (iss2 ! j)"
        by auto
      have all: "calls st2 = planned" using c2 c1 by (simp add: planned)
      have "batches_sent st2 = int (length planned)" using b1 b2 by (simp add: planned)
      moreover have "length (iss1 @ iss2) = length planned" using l1 l2 by (simp add: planned)
      moreover have "errors st2 = concat (iss1 @ iss2)" using e1 e2 by simp
      moreover have "\<forall>i<length planned. call_items post planned i = Inr ((iss1 @ iss2) ! i)"
      proof (intro allI impI)
        fix i assume i: "i < length planned"
        show "call_items post planned i = Inr ((iss1 @ iss2) ! i)"
        proof (cases "i < length ?P")
          case True
          with i1' l1 show ?thesis by (simp add: nth_append)
        next
          case False
          then obtain j where j: "i = length ?P + j" "j < length ?Q"
            using i by (metis add_diff_inverse_nat length_append length_map
                nat_add_left_cancel_less planned)
          with i2 c1 all l1 show ?thesis by (simp add: nth_append)
        qed
      qed
      moreover have "r = summarize di st2"
        using pl ql s1 None s2 None2 by (simp add: r import_documents_def)
      ultimately show ?thesis using all by blast
    qed
  qed
qed

subsection \<open>The Line Encoder emits whole pairs\<close>

lemma make_bulk_lines_loop_Cons:
  "make_bulk_lines_loop dumps (x # rest) idx = Inr ls \<Longrightarrow>
     \<exists>d a b ls'. x = PDict d \<and> dumps (bulk_meta d idx) = Some a \<and> dumps (PDict d) = Some b
        \<and> make_bulk_lines_loop dumps rest idx = Inr ls' \<and> ls = a # b # ls'"
  by (cases x) (auto split: option.splits sum.splits)

lemma make_bulk_lines_loop_pairs:
  "make_bulk_lines_loop dumps docs idx = Inr ls \<Longrightarrow>
     length ls = 2 * length docs
   \<and> (\<forall>i<length docs. \<exists>d. docs ! i = PDict d
          \<and> dumps (bulk_meta d idx) = Some (ls ! (2 * i))
          \<and> dumps (PDict d) = Some (ls ! (2 * i + 1)))"
proof (induction docs arbitrary: ls)
  case Nil
  then show ?case by simp
next
  case (Cons x rest)
  from make_bulk_lines_loop_Cons [OF Cons.prems] obtain d a b ls' where
    x: "x = PDict d" and a: "dumps (bulk_meta d idx) = Some a" and
    b: "dumps (PDict d) = Some b" and
    r: "make_bulk_lines_loop dumps rest idx = Inr ls'" and ls: "ls = a # b # ls'"
    by blast
  from Cons.IH [OF r] have len: "length ls' = 2 * length rest" and
    ih: "\<forall>i<length rest. \<exists>d. rest ! i = PDict d
          \<and> dumps (bulk_meta d idx) = Some (ls' ! (2 * i))
          \<and> dumps (PDict d) = Some (ls' ! (2 * i + 1))"
    by simp_all
  have "\<forall>i<length (x # rest). \<exists>d. (x # rest) ! i = PDict d
          \<and> dumps (bulk_meta d idx) = Some (ls ! (2 * i))
          \<and> dumps (PDict d) = Some (ls ! (2 * i + 1))"
  proof (intro allI impI)
    fix i assume i: "i < length (x # rest)"
    show "\<exists>d. (x # rest) ! i = PDict d
          \<and> dumps (bulk_meta d idx) = Some (ls ! (2 * i))
          \<and> dumps (PDict d) = Some (ls ! (2 * i + 1))"
    proof (cases i)
      case 0
      with x a b ls show ?thesis by simp
    next
      case (Suc j)
      with i ih ls show ?thesis by simp
    qed
  qed
  with len ls show ?case by simp
qed

lemma bulk_meta_eq:
  "bulk_meta d idx =
     PDict [(''index'', PDict ((''_index'', PStr idx) #
       (if truthy (dict_get d ''product_id'') then [(''_id'', dict_get d ''product_id'')]
        else if truthy (dict_get d ''promotion_id'') then [(''_id'', dict_get d ''promotion_id'')]
        else [])))]"
  by (simp add: bulk_meta_def doc_id_def Let_def)

lemma make_bulk_lines_loop_take_drop:
  "make_bulk_lines_loop dumps docs idx = Inr ls \<Longrightarrow>
     make_bulk_lines_loop dumps (take n docs) idx = Inr (take (2 * n) ls)
   \<and> make_bulk_lines_loop dumps (drop n docs) idx = Inr (drop (2 * n) ls)"
proof (induction docs arbitrary: ls n)
  case Nil
  then show ?case by simp
next
  case (Cons x rest)
  from make_bulk_lines_loop_Cons [OF Cons.prems] obtain d a b ls' where
    x: "x = PDict d" and a: "dumps (bulk_meta d idx) = Some a" and
    b: "dumps (PDict d) = Some b" and
    r: "make_bulk_lines_loop dumps rest idx = Inr ls'" and ls: "ls = a # b # ls'"
    by blast
  show ?case
  proof (cases n)
    case 0
    with Cons.prems show ?thesis by simp
  next
    case (Suc m)
    from Cons.IH [OF r, of m] x a b ls Suc show ?thesis by simp
  qed
qed

lemma slices_encoded:
  "0 < n \<Longrightarrow> make_bulk_lines_loop dumps docs idx = Inr ls \<Longrightarrow>
     map (\<lambda>g. make_bulk_lines_loop dumps g idx) (slices n docs) = map Inr (slices (2 * n) ls)"
proof (induction n docs arbitrary: ls rule: slices.induct)
  case (1 n docs)
  from make_bulk_lines_loop_pairs [OF 1(3)] have len: "length ls = 2 * length docs" by simp
  show ?case
  proof (cases "docs = []")
    case True
    with len show ?thesis by (simp add: slices_Nil)
  next
    case False
    with len have ne: "ls \<noteq> []" by auto
    from make_bulk_lines_loop_take_drop [OF 1(3), of n] have
      t: "make_bulk_lines_loop dumps (take n docs) idx = Inr (take (2 * n) ls)" and
      d: "make_bulk_lines_loop dumps (drop n docs) idx = Inr (drop (2 * n) ls)"
      by simp_all
    from 1(1) [OF _ 1(2) d] False 1(2) have
      "map (\<lambda>g. make_bulk_lines_loop dumps g idx) (slices n (drop n docs)) =
       map Inr (slices (2 * n) (drop (2 * n) ls))" by simp
    with t False ne 1(2) show ?thesis by (simp add: slices_step)
  qed
qed

lemma length_slices_part: "0 < n \<Longrightarrow> g \<in> set (slices n xs) \<Longrightarrow> length g \<le> n"
  by (auto simp: in_set_conv_nth nth_slices)

subsection \<open>The outcome of a run\<close>

lemma aborted_simps:
  "requests_made (aborted cs e) = cs" "printed (aborted cs e) = []"
  "raised (aborted cs e) = Some e"
  by (simp_all add: aborted_def)

lemma item_failed_iff:
  "item_failed item = Inr True \<longleftrightarrow>
     (\<exists>d ix. item = PDict d \<and> dict_get_default d ''index'' (PDict []) = PDict ix
        \<and> truthy (dict_get ix ''error''))"
proof (cases item)
  case (PDict d)
  show ?thesis
    by (cases "dict_get_default d ''index'' (PDict [])")
       (simp_all add: PDict item_failed_def dict_get_def)
qed (simp_all add: item_failed_def)

lemma outcome_record_iff: "outcome_record item \<longleftrightarrow> (\<exists>b. item_failed item = Inr b)"
proof (cases item)
  case (PDict d)
  show ?thesis
    by (cases "dict_get_default d ''index'' (PDict [])")
       (simp_all add: PDict outcome_record_def item_failed_def)
qed (simp_all add: outcome_record_def item_failed_def)

lemma failed_items_shaped:
  "\<forall>item \<in> set xs. outcome_record item \<Longrightarrow>
     failed_items xs = Inr (filter (\<lambda>item. item_failed item = Inr True) xs)"
proof (induction xs)
  case Nil
  then show ?case by simp
next
  case (Cons x xs)
  then obtain b where b: "item_failed x = Inr b" by (auto simp: outcome_record_iff)
  with Cons show ?case by simp
qed

lemma summarize_requests: "requests_made (summarize di st) = calls st"
  by (simp add: summarize_def aborted_def Let_def split: sum.splits option.splits)

lemma summarize_printed:
  assumes "printed (summarize di st) \<noteq> []"
  shows "\<exists>failed. failed_items (errors st) = Inr failed
     \<and> printed (summarize di st) =
         (''Bulk import finished. Batches sent: '' @ show_int (batches_sent st) @ ''.'')
         # (if failed = [] then [''All documents indexed without reported errors.'']
            else (''Documents with errors: '' @ show_int (int (length failed)))
                 # (case di (PList (take 5 failed)) of None \<Rightarrow> [] | Some sample \<Rightarrow> [sample]))"
  using assms
  by (cases "failed_items (errors st)")
     (auto simp: summarize_def aborted_def Let_def split: option.splits)

lemma import_documents_started:
  assumes r: "r = import_documents dumps di post ds u k pidx qidx c t skip"
    and "requests_made r \<noteq> [] \<or> printed r \<noteq> [] \<or> raised r = None"
  shows "\<exists>pl ql. product_lines dumps ds pidx = Inr pl
           \<and> promotion_lines dumps ds qidx skip = Inr ql"
proof (cases "product_lines dumps ds pidx")
  case (Inl e)
  then have "r = aborted [] e" by (simp add: r import_documents_def)
  with assms(2) show ?thesis by (simp add: aborted_simps)
next
  case pl: (Inr pl)
  show ?thesis
  proof (cases "promotion_lines dumps ds qidx skip")
    case (Inl e)
    with pl have "r = aborted [] e" by (simp add: r import_documents_def)
    with assms(2) show ?thesis by (simp add: aborted_simps)
  next
    case (Inr ql)
    with pl show ?thesis by simp
  qed
qed

lemma import_documents_summary:
  assumes r: "r = import_documents dumps di post ds u k pidx qidx c t skip"
    and p: "printed r \<noteq> []"
  shows "\<exists>pl ql st iss. product_lines dumps ds pidx = Inr pl
       \<and> promotion_lines dumps ds qidx skip = Inr ql
       \<and> calls st = map (\<lambda>b. bulk_request u k b t) (chunked pl c @ chunked ql c)
       \<and> batches_sent st = int (length (calls st))
       \<and> length iss = length (calls st) \<and> errors st = concat iss
       \<and> (\<forall>i<length (calls st). call_items post (calls st) i = Inr (iss ! i))
       \<and> r = summarize di st"
proof -
  from import_documents_started [OF r] p obtain pl ql where
    pl: "product_lines dumps ds pidx = Inr pl" and
    ql: "promotion_lines dumps ds qidx skip = Inr ql" by blast
  from import_documents_sent [OF pl ql refl r] p
  obtain st iss where
    "calls st = map (\<lambda>b. bulk_request u k b t) (chunked pl c @ chunked ql c)"
    "batches_sent st = int (length (map (\<lambda>b. bulk_request u k b t) (chunked pl c @ chunked ql c)))"
    "length iss = length (map (\<lambda>b. bulk_request u k b t) (chunked pl c @ chunked ql c))"
    "errors st = concat iss"
    "\<forall>i<length (map (\<lambda>b. bulk_request u k b t) (chunked pl c @ chunked ql c)).
        call_items post (map (\<lambda>b. bulk_request u k b t) (chunked pl c @ chunked ql c)) i
          = Inr (iss ! i)"
    "r = summarize di st"
    by (auto simp: aborted_simps)
  with pl ql show ?thesis by (metis (no_types, lifting))
qed

lemma join_lines:
  "ls \<noteq> [] \<Longrightarrow> join [c] ls @ [c] = concat (map (\<lambda>l. l @ [c]) ls)"
  by (induction "[c]" ls rule: join.induct) simp_all

lemma failing_call_is_last:
  assumes r: "r = import_documents dumps di post ds u k pidx qidx c t skip"
    and i: "i < length (requests_made r)"
    and bad: "call_items post (requests_made r) i = Inl e"
  shows "Suc i = length (requests_made r) \<and> printed r = [] \<and> raised r = Some e"
proof -
  from i have "requests_made r \<noteq> []" by auto
  with import_documents_started [OF r] obtain pl ql where
    pl: "product_lines dumps ds pidx = Inr pl" and
    ql: "promotion_lines dumps ds qidx skip = Inr ql" by blast
  let ?planned = "map (\<lambda>b. bulk_request u k b t) (chunked pl c @ chunked ql c)"
  from import_documents_sent [OF pl ql refl r]
  consider (abort) e' n where "n < length ?planned" "r = aborted (take (Suc n) ?planned) e'"
      "\<forall>j<n. \<exists>xs. call_items post ?planned j = Inr xs" "call_items post ?planned n = Inl e'"
    | (summary) st iss where "calls st = ?planned"
      "\<forall>i<length ?planned. call_items post ?planned i = Inr (iss ! i)" "r = summarize di st"
    by blast
  then show ?thesis
  proof cases
    case abort
    from abort(1,2) have rm: "requests_made r = take (Suc n) ?planned"
      and len: "length (requests_made r) = Suc n"
      by (simp_all add: aborted_simps)
    from i len have "i < Suc n" by simp
    then have "call_items post (take (Suc n) ?planned) i = call_items post ?planned i"
      by (rule call_items_take)
    with bad rm have b: "call_items post ?planned i = Inl e" by simp
    have "i = n"
    proof (rule ccontr)
      assume "i \<noteq> n"
      with \<open>i < Suc n\<close> have "i < n" by simp
      with abort(3) b show False by auto
    qed
    with b abort(4) have "e' = e" by simp
    with abort(2) len \<open>i = n\<close> show ?thesis by (simp add: aborted_simps)
  next
    case summary
    then have "requests_made r = ?planned" by (simp add: summarize_requests)
    with i bad summary(2) show ?thesis by auto
  qed
qed

section \<open>The claims\<close>

text \<open>
  Claim C2. For a chunk size \<open>c > 0\<close> and a sequence of \<open>L\<close> lines, the Batcher yields
  \<open>ceil((L / 2) / c)\<close> batches; batch number \<open>i\<close> (from 0) is the next \<open>2c\<close> lines of the
  input after the \<open>i * 2c\<close> lines of the batches before it, so it holds
  \<open>min(2c, remaining)\<close> lines in input order; and the batches concatenated in order
  are the input. The division \<open>L / 2\<close> is the exact one, so an odd number of lines
  counts its last half-record.
\<close>

theorem chunked_batches:
  assumes "0 < c"
  shows "length (chunked xs c) = nat \<lceil>(real (length xs) / 2) / real_of_int c\<rceil>
       \<and> (\<forall>i < length (chunked xs c).
             chunked xs c ! i = take (nat (2 * c)) (drop (i * nat (2 * c)) xs)
           \<and> length (chunked xs c ! i) = min (nat (2 * c)) (length xs - i * nat (2 * c)))
       \<and> concat (chunked xs c) = xs"
proof -
  let ?n = "nat (2 * c)"
  have npos: "0 < ?n" using assms by simp
  have eq: "chunked xs c = slices ?n xs" using assms by (rule chunked_slices)
  have "real (length xs) / 2 / real_of_int c = real (length xs) / real ?n"
    using assms by simp
  then have count: "length (chunked xs c) = nat \<lceil>(real (length xs) / 2) / real_of_int c\<rceil>"
    using npos by (simp only: eq length_slices ceiling_div_nat)
  have each: "\<forall>i < length (chunked xs c).
             chunked xs c ! i = take ?n (drop (i * ?n) xs)
           \<and> length (chunked xs c ! i) = min ?n (length xs - i * ?n)"
    using npos by (simp add: eq nth_slices min.commute)
  have "concat (chunked xs c) = xs"
    using npos by (simp add: eq concat_slices)
  with count each show ?thesis by blast
qed

theorem chunked_batches_witness:
  "chunked ''abcde'' 1 = [''ab'', ''cd'', ''e'']
   \<and> length (chunked ''abcde'' 1) = nat \<lceil>(real (length ''abcde'') / 2) / real_of_int 1\<rceil>
   \<and> concat (chunked ''abcde'' 1) = ''abcde''"
  using chunked_batches [of 1 "''abcde''"] by (simp add: chunked_def)

text \<open>
  Claim C3. For a collection of records and an index name, when the encoding succeeds
  it has exactly two lines per record, in the order of the records: the action line,
  which serializes \<open>{"index": {"_index": name}}\<close> with \<open>_id\<close> added exactly when an
  identity field is truthy (non-empty), \<open>product_id\<close> looked at first and \<open>promotion_id\<close>
  only when \<open>product_id\<close> is absent or falsy; then the body line, which serializes the
  record itself.
\<close>

theorem make_bulk_lines_pairs:
  assumes "make_bulk_lines dumps (PList docs) index_name = Inr ls"
  shows "length ls = 2 * length docs
   \<and> (\<forall>i<length docs. \<exists>d. docs ! i = PDict d
        \<and> dumps (PDict [(''index'', PDict ((''_index'', PStr index_name) #
             (if truthy (dict_get d ''product_id'')
              then [(''_id'', dict_get d ''product_id'')]
              else if truthy (dict_get d ''promotion_id'')
              then [(''_id'', dict_get d ''promotion_id'')]
              else [])))]) = Some (ls ! (2 * i))
        \<and> dumps (PDict d) = Some (ls ! (2 * i + 1)))"
proof -
  from assms have "make_bulk_lines_loop dumps docs index_name = Inr ls"
    by (simp add: make_bulk_lines_def)
  from make_bulk_lines_loop_pairs [OF this, unfolded bulk_meta_eq] show ?thesis .
qed

theorem make_bulk_lines_pairs_witness:
  "make_bulk_lines json_dumps
       (PList [PDict [(''product_id'', PStr ''p1'')], PDict [(''name'', PStr ''oats'')]])
       ''products''
     = Inr [''{\"index\": {\"_index\": \"products\", \"_id\": \"p1\"}}'',
            ''{\"product_id\": \"p1\"}'',
            ''{\"index\": {\"_index\": \"products\"}}'',
            ''{\"name\": \"oats\"}'']
   \<and> length [''{\"index\": {\"_index\": \"products\", \"_id\": \"p1\"}}'',
            ''{\"product_id\": \"p1\"}'',
            ''{\"index\": {\"_index\": \"products\"}}'',
            ''{\"name\": \"oats\"}'']
       = 2 * length [PDict [(''product_id'', PStr ''p1'')], PDict [(''name'', PStr ''oats'')]]"
proof -
  have h: "make_bulk_lines json_dumps
       (PList [PDict [(''product_id'', PStr ''p1'')], PDict [(''name'', PStr ''oats'')]])
       ''products''
     = Inr [''{\"index\": {\"_index\": \"products\", \"_id\": \"p1\"}}'',
            ''{\"product_id\": \"p1\"}'',
            ''{\"index\": {\"_index\": \"products\"}}'',
            ''{\"name\": \"oats\"}'']"
    by code_simp
  from make_bulk_lines_pairs [OF h] h show ?thesis by blast
qed

text \<open>
  Claim C10. A record whose \<open>product_id\<close> and \<open>promotion_id\<close> are both falsy (an empty
  string, 0, false, null, or absent) gets an action line without \<open>_id\<close>; its body line
  is the serialization of the whole record, those fields included.
\<close>

theorem falsy_identity_no_id:
  assumes "\<not> truthy (dict_get d ''product_id'')" and "\<not> truthy (dict_get d ''promotion_id'')"
  shows "make_bulk_lines dumps (PList [PDict d]) index_name =
           (case dumps (PDict [(''index'', PDict [(''_index'', PStr index_name)])]) of
              None \<Rightarrow> Inl NotSerializable
            | Some action \<Rightarrow>
                (case dumps (PDict d) of
                   None \<Rightarrow> Inl NotSerializable
                 | Some body \<Rightarrow> Inr [action, body]))"
  using assms by (simp add: make_bulk_lines_def bulk_meta_eq split: option.splits)

theorem falsy_identity_no_id_witness:
  "\<not> truthy (dict_get falsy_identity ''product_id'')
   \<and> \<not> truthy (dict_get falsy_identity ''promotion_id'')
   \<and> make_bulk_lines json_dumps (PList [PDict falsy_identity]) ''products''
       = Inr [''{\"index\": {\"_index\": \"products\"}}'',
              ''{\"product_id\": \"\", \"promotion_id\": 0}'']"
proof -
  have a: "\<not> truthy (dict_get falsy_identity ''product_id'')"
    and b: "\<not> truthy (dict_get falsy_identity ''promotion_id'')"
    by (simp_all add: falsy_identity_def dict_get_def dict_get_default_def)
  have c: "json_dumps (PDict [(''index'', PDict [(''_index'', PStr ''products'')])])
             = Some ''{\"index\": {\"_index\": \"products\"}}''"
    by code_simp
  have d: "json_dumps (PDict falsy_identity) = Some ''{\"product_id\": \"\", \"promotion_id\": 0}''"
    by code_simp
  from falsy_identity_no_id [OF a b, of json_dumps "''products''"] a b c d
  show ?thesis by simp
qed

text \<open>
  Claim C8. For the lines that the Line Encoder makes of a collection and a chunk
  size \<open>c > 0\<close>, the records fall into consecutive groups of at most \<open>c\<close>, batch number
  \<open>i\<close> is exactly the encoding of group number \<open>i\<close> (no pair is split), and every batch
  has an even number of lines, at most \<open>2c\<close>.
\<close>

theorem batches_hold_whole_records:
  assumes "0 < c" and "make_bulk_lines dumps coll index_name = Inr ls"
  shows "\<exists>docs groups. py_iter coll = Inr docs \<and> concat groups = docs
       \<and> length groups = length (chunked ls c)
       \<and> (\<forall>i<length groups.
            make_bulk_lines_loop dumps (groups ! i) index_name = Inr (chunked ls c ! i)
          \<and> length (chunked ls c ! i) = 2 * length (groups ! i)
          \<and> int (length (groups ! i)) \<le> c)
       \<and> (\<forall>b \<in> set (chunked ls c). even (length b) \<and> int (length b) \<le> 2 * c)"
proof -
  from assms(2) obtain docs where it: "py_iter coll = Inr docs"
    and enc: "make_bulk_lines_loop dumps docs index_name = Inr ls"
    by (auto simp: make_bulk_lines_def split: sum.splits)
  let ?n = "nat c"
  have npos: "0 < ?n" using assms(1) by simp
  have n2: "nat (2 * c) = 2 * ?n" using assms(1) by simp
  have ch: "chunked ls c = slices (2 * ?n) ls"
    using chunked_slices [OF assms(1), of ls] n2 by simp
  let ?groups = "slices ?n docs"
  have m: "map (\<lambda>g. make_bulk_lines_loop dumps g index_name) ?groups = map Inr (chunked ls c)"
    using slices_encoded [OF npos enc] ch by simp
  then have len: "length ?groups = length (chunked ls c)"
    by (metis length_map)
  have each: "\<forall>i<length ?groups.
            make_bulk_lines_loop dumps (?groups ! i) index_name = Inr (chunked ls c ! i)
          \<and> length (chunked ls c ! i) = 2 * length (?groups ! i)
          \<and> int (length (?groups ! i)) \<le> c"
  proof (intro allI impI)
    fix i assume i: "i < length ?groups"
    from m have "map (\<lambda>g. make_bulk_lines_loop dumps g index_name) ?groups ! i
                  = map Inr (chunked ls c) ! i" by simp
    with i len have e: "make_bulk_lines_loop dumps (?groups ! i) index_name = Inr (chunked ls c ! i)"
      by simp
    from make_bulk_lines_loop_pairs [OF e]
    have l: "length (chunked ls c ! i) = 2 * length (?groups ! i)" by simp
    from i have "?groups ! i \<in> set ?groups" by simp
    from length_slices_part [OF npos this] have "int (length (?groups ! i)) \<le> c"
      using assms(1) by linarith
    with e l show "make_bulk_lines_loop dumps (?groups ! i) index_name = Inr (chunked ls c ! i)
          \<and> length (chunked ls c ! i) = 2 * length (?groups ! i)
          \<and> int (length (?groups ! i)) \<le> c" by simp
  qed
  have "\<forall>b \<in> set (chunked ls c). even (length b) \<and> int (length b) \<le> 2 * c"
  proof
    fix b assume "b \<in> set (chunked ls c)"
    then obtain i where i: "i < length (chunked ls c)" and b: "b = chunked ls c ! i"
      by (auto simp: in_set_conv_nth)
    with each len show "even (length b) \<and> int (length b) \<le> 2 * c" by auto
  qed
  moreover have "concat ?groups = docs" using npos by (rule concat_slices)
  ultimately show ?thesis using it len each by blast
qed

theorem batches_hold_whole_records_witness:
  "(0::int) < 2
   \<and> make_bulk_lines json_dumps (dict_get_default three_products ''products'' (PList []))
         ''products'' = Inr three_products_lines
   \<and> chunked three_products_lines 2
        = [take 4 three_products_lines, drop 4 three_products_lines]
   \<and> list_all (\<lambda>b. even (length b) \<and> int (length b) \<le> 2 * 2)
        (chunked three_products_lines 2)"
proof -
  have p: "(0::int) < 2" by simp
  have h: "make_bulk_lines json_dumps (dict_get_default three_products ''products'' (PList []))
         ''products'' = Inr three_products_lines"
    by code_simp
  have c: "chunked three_products_lines 2
        = [take 4 three_products_lines, drop 4 three_products_lines]"
    by code_simp
  from batches_hold_whole_records [OF p h]
  have "list_all (\<lambda>b. even (length b) \<and> int (length b) \<le> 2 * 2)
          (chunked three_products_lines 2)"
    unfolding list_all_iff by blast
  with p h c show ?thesis by blast
qed

text \<open>
  Claim C7. Whenever a run reports its summary, the number of batches it reports is
  the number of requests it made: one for each batch of the product lines, then one
  for each batch of the promotion lines. An empty product collection contributes no
  batch, and neither does the promotion collection when it is empty or when
  \<open>skip_promotions\<close> is set, whatever the dataset holds.
\<close>

theorem batches_sent_is_calls_made:
  assumes "r = import_documents dumps dumps_indent post dataset es_url api_key products_index
                 promotions_index chunk_size tmo skip_promotions"
    and "printed r \<noteq> []"
  shows "\<exists>pl ql. product_lines dumps dataset products_index = Inr pl
       \<and> promotion_lines dumps dataset promotions_index skip_promotions = Inr ql
       \<and> requests_made r = map (\<lambda>b. bulk_request es_url api_key b tmo) (chunked pl chunk_size)
                          @ map (\<lambda>b. bulk_request es_url api_key b tmo) (chunked ql chunk_size)
       \<and> hd (printed r) = ''Bulk import finished. Batches sent: ''
                            @ show_int (int (length (requests_made r))) @ ''.''
       \<and> (dict_get_default dataset ''products'' (PList []) = PList [] \<longrightarrow>
            chunked pl chunk_size = [])
       \<and> (skip_promotions \<or> \<not> truthy (dict_get_default dataset ''promotions'' (PList [])) \<longrightarrow>
            chunked ql chunk_size = [])"
proof -
  from import_documents_summary [OF assms] obtain pl ql st iss where
    pl: "product_lines dumps dataset products_index = Inr pl" and
    ql: "promotion_lines dumps dataset promotions_index skip_promotions = Inr ql" and
    c: "calls st = map (\<lambda>b. bulk_request es_url api_key b tmo)
                     (chunked pl chunk_size @ chunked ql chunk_size)" and
    b: "batches_sent st = int (length (calls st))" and
    r: "r = summarize dumps_indent st"
    by blast
  have rm: "requests_made r = calls st" by (simp add: r summarize_requests)
  from assms(2) r summarize_printed [of dumps_indent st]
  have "hd (printed r) = ''Bulk import finished. Batches sent: ''
                            @ show_int (batches_sent st) @ ''.''"
    by auto
  then have first: "hd (printed r) = ''Bulk import finished. Batches sent: ''
                            @ show_int (int (length (requests_made r))) @ ''.''"
    by (simp add: rm b)
  have e1: "dict_get_default dataset ''products'' (PList []) = PList [] \<longrightarrow>
            chunked pl chunk_size = []"
    using pl by (auto simp: product_lines_def make_bulk_lines_def chunked_Nil)
  have e2: "skip_promotions \<or> \<not> truthy (dict_get_default dataset ''promotions'' (PList [])) \<longrightarrow>
            chunked ql chunk_size = []"
    using ql by (auto simp: promotion_lines_def chunked_Nil Let_def split: if_splits)
  from pl ql c rm first e1 e2 show ?thesis by simp
qed

theorem batches_sent_is_calls_made_witness:
  "printed (sample_run always_ok three_products 2 True) \<noteq> []
   \<and> length (requests_made (sample_run always_ok three_products 2 True)) = 2
   \<and> truthy (dict_get_default three_products ''promotions'' (PList []))
   \<and> hd (printed (sample_run always_ok three_products 2 True))
       = ''Bulk import finished. Batches sent: ''
         @ show_int (int (length (requests_made (sample_run always_ok three_products 2 True))))
         @ ''.''
   \<and> hd (printed (sample_run always_ok three_products 2 True))
       = ''Bulk import finished. Batches sent: 2.''"
proof -
  have p: "printed (sample_run always_ok three_products 2 True) \<noteq> []" by code_simp
  have n: "length (requests_made (sample_run always_ok three_products 2 True)) = 2"
    by code_simp
  have t: "truthy (dict_get_default three_products ''promotions'' (PList []))" by code_simp
  have s: "show_int (int 2) = ''2''" by code_simp
  from batches_sent_is_calls_made [OF sample_run_def [of always_ok three_products 2 True] p] p n t s
  show ?thesis by auto
qed

text \<open>
  Claim C4, amended. In a run whose collections encode, whose every request got a
  result with per-item outcomes, and whose outcomes are all outcome records (dicts
  whose \<open>index\<close> entry, when present, is a dict), every batch is sent, and the failed
  items are those outcomes, taken over all requests in the order they were made and
  kept in that order with their repetitions, whose \<open>index\<close> entry has a truthy
  (non-empty) \<open>error\<close>; the summary gives their number and prints the first five of
  them, and nothing about the others. (As the claim stands, for every run, it fails:
  an outcome \<open>{"index": null}\<close> is not classified at all, the run raises after the
  last batch and prints no summary.)
\<close>

theorem outcome_records_reported:
  assumes "r = import_documents dumps dumps_indent post dataset es_url api_key products_index
                 promotions_index chunk_size tmo skip_promotions"
    and "product_lines dumps dataset products_index = Inr pl"
    and "promotion_lines dumps dataset promotions_index skip_promotions = Inr ql"
    and "length iss = length (requests_made r)"
    and "\<forall>i<length (requests_made r). call_items post (requests_made r) i = Inr (iss ! i)"
    and "\<forall>item \<in> set (concat iss). outcome_record item"
  shows "requests_made r = map (\<lambda>b. bulk_request es_url api_key b tmo)
                             (chunked pl chunk_size @ chunked ql chunk_size)
       \<and> (\<forall>item \<in> set (concat iss).
            item_failed item = Inr (\<exists>d ix. item = PDict d
                \<and> dict_get_default d ''index'' (PDict []) = PDict ix
                \<and> truthy (dict_get ix ''error'')))
       \<and> (\<exists>failed. failed = filter (\<lambda>item. item_failed item = Inr True) (concat iss)
          \<and> printed r =
             (''Bulk import finished. Batches sent: ''
                @ show_int (int (length (requests_made r))) @ ''.'')
             # (if failed = [] then [''All documents indexed without reported errors.'']
                else (''Documents with errors: '' @ show_int (int (length failed)))
                     # (case dumps_indent (PList (take 5 failed)) of
                          None \<Rightarrow> []
                        | Some sample \<Rightarrow> [sample])))"
proof -
  define planned where "planned = map (\<lambda>b. bulk_request es_url api_key b tmo)
                             (chunked pl chunk_size @ chunked ql chunk_size)"
  from import_documents_sent [OF assms(2,3) planned_def assms(1)]
  consider (abort) e n where "n < length planned" "r = aborted (take (Suc n) planned) e"
      "call_items post planned n = Inl e"
    | (summary) st iss' where "calls st = planned" "batches_sent st = int (length planned)"
      "length iss' = length planned" "errors st = concat iss'"
      "\<forall>i<length planned. call_items post planned i = Inr (iss' ! i)"
      "r = summarize dumps_indent st"
    by blast
  then show ?thesis
  proof cases
    case abort
    from abort(1,2) have rm: "requests_made r = take (Suc n) planned"
      and len: "length (requests_made r) = Suc n"
      by (simp_all add: aborted_simps)
    have "call_items post (take (Suc n) planned) n = call_items post planned n"
      by (rule call_items_take) simp
    with abort(3) rm have "call_items post (requests_made r) n = Inl e" by simp
    with assms(5) len show ?thesis by simp
  next
    case summary
    have rm: "requests_made r = planned" using summary(1,6) by (simp add: summarize_requests)
    have "iss' = iss"
    proof (rule nth_equalityI)
      show "length iss' = length iss" using summary(3) assms(4) rm by simp
      fix i assume "i < length iss'"
      with summary(3,5) assms(5) rm show "iss' ! i = iss ! i" by simp
    qed
    with summary(4) have e: "errors st = concat iss" by simp
    let ?failed = "filter (\<lambda>item. item_failed item = Inr True) (concat iss)"
    from failed_items_shaped [OF assms(6)] e
    have f: "failed_items (errors st) = Inr ?failed" by simp
    have p: "printed r =
             (''Bulk import finished. Batches sent: ''
                @ show_int (int (length (requests_made r))) @ ''.'')
             # (if ?failed = [] then [''All documents indexed without reported errors.'']
                else (''Documents with errors: '' @ show_int (int (length ?failed)))
                     # (case dumps_indent (PList (take 5 ?failed)) of
                          None \<Rightarrow> []
                        | Some sample \<Rightarrow> [sample]))"
      using f summary(2) rm
      by (simp add: summary(6) summarize_def Let_def split: option.splits)
    have cls: "\<forall>item \<in> set (concat iss).
            item_failed item = Inr (\<exists>d ix. item = PDict d
                \<and> dict_get_default d ''index'' (PDict []) = PDict ix
                \<and> truthy (dict_get ix ''error''))"
    proof
      fix item assume "item \<in> set (concat iss)"
      with assms(6) obtain b where b: "item_failed item = Inr b"
        by (auto simp: outcome_record_iff)
      with item_failed_iff [of item] show "item_failed item = Inr (\<exists>d ix. item = PDict d
                \<and> dict_get_default d ''index'' (PDict []) = PDict ix
                \<and> truthy (dict_get ix ''error''))"
        by (cases b) auto
    qed
    from rm cls p show ?thesis unfolding planned_def by blast
  qed
qed

theorem outcome_records_reported_witness:
  "product_lines json_dumps three_products ''products'' = Inr three_products_lines
   \<and> promotion_lines json_dumps three_products ''promotions'' True = Inr []
   \<and> length (requests_made (sample_run one_rejected three_products 5 True)) = 1
   \<and> call_items one_rejected (requests_made (sample_run one_rejected three_products 5 True)) 0
       = Inr [accepted_item, accepted_item, rejected_item, accepted_item, accepted_item]
   \<and> list_all outcome_record
        [accepted_item, accepted_item, rejected_item, accepted_item, accepted_item]
   \<and> filter (\<lambda>item. item_failed item = Inr True)
        [accepted_item, accepted_item, rejected_item, accepted_item, accepted_item]
       = [rejected_item]
   \<and> map Some (printed (sample_run one_rejected three_products 5 True))
       = [Some ''Bulk import finished. Batches sent: 1.'',
          Some ''Documents with errors: 1'',
          json_dumps_indent2 (PList [rejected_item])]"
proof -
  let ?r = "sample_run one_rejected three_products 5 True"
  let ?xs = "[accepted_item, accepted_item, rejected_item, accepted_item, accepted_item]"
  have p: "product_lines json_dumps three_products ''products'' = Inr three_products_lines"
    by code_simp
  have q: "promotion_lines json_dumps three_products ''promotions'' True = Inr []"
    by code_simp
  have n: "length (requests_made ?r) = 1" by code_simp
  have c: "call_items one_rejected (requests_made ?r) 0 = Inr ?xs" by code_simp
  have w: "list_all outcome_record ?xs" by code_simp
  have f: "filter (\<lambda>item. item_failed item = Inr True) ?xs = [rejected_item]" by code_simp
  have s: "show_int (int 1) = ''1''" by code_simp
  have "json_dumps_indent2 (PList [rejected_item]) \<noteq> None" by code_simp
  then have d: "\<exists>sample. json_dumps_indent2 (PList [rejected_item]) = Some sample" by blast
  have l: "length [?xs] = length (requests_made ?r)" using n by simp
  have i: "\<forall>i<length (requests_made ?r). call_items one_rejected (requests_made ?r) i
             = Inr ([?xs] ! i)"
    using n c by simp
  have o: "\<forall>item \<in> set (concat [?xs]). outcome_record item"
    using w by (simp add: list_all_iff)
  from outcome_records_reported [OF sample_run_def [of one_rejected three_products 5 True]
      p q l i o]
  obtain failed where
    ff: "failed = filter (\<lambda>item. item_failed item = Inr True) (concat [?xs])" and
    pr: "printed ?r =
           (''Bulk import finished. Batches sent: ''
              @ show_int (int (length (requests_made ?r))) @ ''.'')
           # (if failed = [] then [''All documents indexed without reported errors.'']
              else (''Documents with errors: '' @ show_int (int (length failed)))
                   # (case json_dumps_indent2 (PList (take 5 failed)) of
                        None \<Rightarrow> []
                      | Some sample \<Rightarrow> [sample]))"
    by blast
  from ff f have "failed = [rejected_item]" by simp
  with pr n s d have "map Some (printed ?r)
       = [Some ''Bulk import finished. Batches sent: 1.'',
          Some ''Documents with errors: 1'',
          json_dumps_indent2 (PList [rejected_item])]"
    by auto
  with p q n c w f show ?thesis by blast
qed

theorem null_index_counterexample:
  "call_items null_index (requests_made (sample_run null_index three_products 1 False)) 0
     = Inr [accepted_item, null_index_item]
   \<and> \<not> outcome_record null_index_item
   \<and> item_failed null_index_item = Inl NoGetAttribute
   \<and> length (requests_made (sample_run null_index three_products 1 False)) = 4
   \<and> printed (sample_run null_index three_products 1 False) = []
   \<and> raised (sample_run null_index three_products 1 False) = Some NoGetAttribute"
  by code_simp

text \<open>
  Claim C5. A run makes its requests in the order of the batches, one for a batch and
  none else, and \<open>send_bulk\<close> makes exactly one request: its body is the batch's lines
  joined with newlines plus a final newline (so each line of a batch is followed by a
  newline), its content type is \<open>application/x-ndjson\<close>, and its authorization header
  is \<open>ApiKey\<close> followed by the key.
\<close>

theorem one_request_per_batch:
  assumes "product_lines dumps dataset products_index = Inr pl"
    and "promotion_lines dumps dataset promotions_index skip_promotions = Inr ql"
    and "r = import_documents dumps dumps_indent post dataset es_url api_key products_index
                 promotions_index chunk_size tmo skip_promotions"
  shows "prefix (requests_made r)
           (map (\<lambda>b. bulk_request es_url api_key b tmo)
                (chunked pl chunk_size @ chunked ql chunk_size))
       \<and> send_bulk post made es_url api_key batch tmo =
           (made @ [bulk_request es_url api_key batch tmo],
            bulk_result (post made (bulk_request es_url api_key batch tmo)))
       \<and> req_data (bulk_request es_url api_key batch tmo) = join [CHR 0x0A] batch @ [CHR 0x0A]
       \<and> (batch \<noteq> [] \<longrightarrow> req_data (bulk_request es_url api_key batch tmo)
                              = concat (map (\<lambda>l. l @ [CHR 0x0A]) batch))
       \<and> map_of (req_headers (bulk_request es_url api_key batch tmo)) ''Content-Type''
           = Some ''application/x-ndjson''
       \<and> map_of (req_headers (bulk_request es_url api_key batch tmo)) ''Authorization''
           = Some (''ApiKey '' @ api_key)"
proof -
  let ?planned = "map (\<lambda>b. bulk_request es_url api_key b tmo)
                      (chunked pl chunk_size @ chunked ql chunk_size)"
  from import_documents_sent [OF assms(1,2) refl assms(3)]
  have "(\<exists>n. requests_made r = take n ?planned) "
    by (auto simp: aborted_simps summarize_requests intro: exI [of _ "length ?planned"])
  then have "prefix (requests_made r) ?planned"
    by (metis take_is_prefix)
  moreover have "batch \<noteq> [] \<longrightarrow> req_data (bulk_request es_url api_key batch tmo)
                              = concat (map (\<lambda>l. l @ [CHR 0x0A]) batch)"
    by (simp add: bulk_request_def join_lines)
  ultimately show ?thesis
    by (simp add: send_bulk_def bulk_request_def Let_def)
qed

theorem one_request_per_batch_witness:
  "product_lines json_dumps three_products ''products'' = Inr three_products_lines
   \<and> promotion_lines json_dumps three_products ''promotions'' True = Inr []
   \<and> take 2 three_products_lines \<noteq> []
   \<and> prefix (requests_made (sample_run unavailable_second three_products 1 True))
        (map (\<lambda>b. bulk_request ''http://es:9200/'' ''key'' b 60)
           (chunked three_products_lines 1 @ chunked [] 1))
   \<and> req_data (bulk_request ''http://es:9200/'' ''key'' (take 2 three_products_lines) 60)
       = ''{\"index\": {\"_index\": \"products\", \"_id\": \"p1\"}}'' @ [CHR 0x0A]
         @ ''{\"product_id\": \"p1\"}'' @ [CHR 0x0A]"
proof -
  have p: "product_lines json_dumps three_products ''products'' = Inr three_products_lines"
    by code_simp
  have q: "promotion_lines json_dumps three_products ''promotions'' True = Inr []"
    by code_simp
  have n: "take 2 three_products_lines \<noteq> []" by code_simp
  have c: "concat (map (\<lambda>l. l @ [CHR 0x0A]) (take 2 three_products_lines))
       = ''{\"index\": {\"_index\": \"products\", \"_id\": \"p1\"}}'' @ [CHR 0x0A]
         @ ''{\"product_id\": \"p1\"}'' @ [CHR 0x0A]" by code_simp
  note inst = one_request_per_batch [where batch = "take 2 three_products_lines"
      and made = "[]", OF p q sample_run_def [of unavailable_second three_products 1 True]]
  from inst have pf: "prefix (requests_made (sample_run unavailable_second three_products 1 True))
        (map (\<lambda>b. bulk_request ''http://es:9200/'' ''key'' b 60)
           (chunked three_products_lines 1 @ chunked [] 1))"
    by (rule conjunct1)
  from inst n
  have "req_data (bulk_request ''http://es:9200/'' ''key'' (take 2 three_products_lines) 60)
       = concat (map (\<lambda>l. l @ [CHR 0x0A]) (take 2 three_products_lines))"
    by blast
  from this c
  have rd: "req_data (bulk_request ''http://es:9200/'' ''key'' (take 2 three_products_lines) 60)
       = ''{\"index\": {\"_index\": \"products\", \"_id\": \"p1\"}}'' @ [CHR 0x0A]
         @ ''{\"product_id\": \"p1\"}'' @ [CHR 0x0A]"
    by (rule trans)
  from p q n pf rd show ?thesis by blast
qed

text \<open>
  Claim C9. Both collections are encoded before the first request: when the
  serializer fails on the action line or on the body line of a record of the products,
  or of the promotions when they are not skipped, the run raises without having made
  a request or printed a line.
\<close>

theorem encoding_failure_sends_nothing:
  assumes "r = import_documents dumps dumps_indent post dataset es_url api_key products_index
                 promotions_index chunk_size tmo skip_promotions"
    and "(dict_get_default dataset ''products'' (PList []) = PList docs \<and> idx = products_index)
       \<or> (\<not> skip_promotions \<and> dict_get_default dataset ''promotions'' (PList []) = PList docs
            \<and> idx = promotions_index)"
    and "PDict d \<in> set docs"
    and "dumps (bulk_meta d idx) = None \<or> dumps (PDict d) = None"
  shows "requests_made r = [] \<and> printed r = [] \<and> (\<exists>e. raised r = Some e)"
proof -
  have bad: "\<exists>e. make_bulk_lines_loop dumps docs idx = Inl e"
  proof (cases "make_bulk_lines_loop dumps docs idx")
    case (Inr ls)
    from assms(3) obtain i where i: "i < length docs" "docs ! i = PDict d"
      by (auto simp: in_set_conv_nth)
    with make_bulk_lines_loop_pairs [OF Inr] assms(4) show ?thesis by auto
  qed simp
  from assms(3) have ne: "docs \<noteq> []" by auto
  from assms(2) bad ne have
    "(\<exists>e. product_lines dumps dataset products_index = Inl e)
     \<or> (\<exists>e. promotion_lines dumps dataset promotions_index skip_promotions = Inl e)"
    by (auto simp: product_lines_def promotion_lines_def make_bulk_lines_def Let_def)
  then obtain e where "r = aborted [] e"
    by (cases "product_lines dumps dataset products_index")
       (auto simp: assms(1) import_documents_def)
  then show ?thesis by (simp add: aborted_simps)
qed

theorem encoding_failure_sends_nothing_witness:
  "dict_get_default bytes_product ''products'' (PList [])
     = PList [PDict [(''product_id'', PStr ''p1'')], PDict [(''image'', PBytes ''raw'')]]
   \<and> json_dumps (PDict [(''image'', PBytes ''raw'')]) = None
   \<and> sample_run always_ok bytes_product 2 False
       = \<lparr>requests_made = [], printed = [], raised = Some NotSerializable\<rparr>"
proof -
  have a: "dict_get_default bytes_product ''products'' (PList [])
     = PList [PDict [(''product_id'', PStr ''p1'')], PDict [(''image'', PBytes ''raw'')]]
     \<and> ''products'' = ''products''"
    by code_simp
  have b: "PDict [(''image'', PBytes ''raw'')]
     \<in> set [PDict [(''product_id'', PStr ''p1'')], PDict [(''image'', PBytes ''raw'')]]"
    by simp
  have c: "json_dumps (PDict [(''image'', PBytes ''raw'')]) = None" by code_simp
  have e: "raised (sample_run always_ok bytes_product 2 False) = Some NotSerializable"
    by code_simp
  from encoding_failure_sends_nothing [OF sample_run_def [of always_ok bytes_product 2 False] disjI1 [OF a] b disjI2 [OF c]] a c e
  show ?thesis by (cases "sample_run always_ok bytes_product 2 False") auto
qed

text \<open>
  Claim C6, amended. A request whose reply is a raised connection failure or timeout,
  or a response with a status from 400 to 599, is the last request of the run: the
  requests made before it stay made, no batch is sent after it, nothing is printed,
  and the run raises the transport's exception or, for such a status, an error whose
  message ends with the text of the response. (As the claim stands, "non-2xx", it
  fails: a response with status 300 and a JSON body does not stop the run.)
\<close>

theorem failed_call_aborts_run:
  assumes "r = import_documents dumps dumps_indent post dataset es_url api_key products_index
                 promotions_index chunk_size tmo skip_promotions"
    and "i < length (requests_made r)"
    and "post (take i (requests_made r)) (requests_made r ! i) = rp"
    and "(\<exists>x. rp = Raises x)
       \<or> (\<exists>resp. rp = Returns resp \<and> 400 \<le> status_code resp \<and> status_code resp < 600)"
  shows "Suc i = length (requests_made r) \<and> printed r = []
       \<and> (\<forall>x. rp = Raises x \<longrightarrow> raised r = Some (RequestException x))
       \<and> (\<forall>resp. rp = Returns resp \<longrightarrow>
            (\<exists>pre. raised r = Some (BulkRequestFailed (pre @ resp_text resp))))"
proof -
  from assms(4) obtain e where e: "bulk_result rp = Inl e"
    and ex: "\<forall>x. rp = Raises x \<longrightarrow> e = RequestException x"
    and eb: "\<forall>resp. rp = Returns resp \<longrightarrow> (\<exists>pre. e = BulkRequestFailed (pre @ resp_text resp))"
  proof
    assume "\<exists>x. rp = Raises x"
    then obtain x where "rp = Raises x" by blast
    then show ?thesis by (intro that [of "RequestException x"]) (simp_all add: bulk_result_def)
  next
    assume "\<exists>resp. rp = Returns resp \<and> 400 \<le> status_code resp \<and> status_code resp < 600"
    then obtain resp where rp: "rp = Returns resp"
      and s: "400 \<le> status_code resp" "status_code resp < 600" by blast
    then obtain exc where exc: "raise_for_status resp = Some exc"
      by (cases "status_code resp < 500") (auto simp: raise_for_status_def)
    let ?e = "BulkRequestFailed ((''Bulk request failed: '' @ exc @ [CHR 0x0A]) @ resp_text resp)"
    show ?thesis
    proof (rule that [of ?e])
      show "bulk_result rp = Inl ?e" using rp exc by (simp add: bulk_result_def)
      show "\<forall>x. rp = Raises x \<longrightarrow> ?e = RequestException x" using rp by simp
      show "\<forall>resp. rp = Returns resp \<longrightarrow> (\<exists>pre. ?e = BulkRequestFailed (pre @ resp_text resp))"
        using rp by blast
    qed
  qed
  from e assms(3) have "call_items post (requests_made r) i = Inl e"
    by (simp add: call_items_def call_result_def)
  from failing_call_is_last [OF assms(1,2) this] ex eb show ?thesis by simp
qed

theorem failed_call_aborts_run_witness:
  "1 < length (requests_made (sample_run unavailable_second three_products 1 True))
   \<and> unavailable_second (take 1 (requests_made (sample_run unavailable_second three_products 1 True)))
        (requests_made (sample_run unavailable_second three_products 1 True) ! 1)
       = Returns unavailable_response
   \<and> 400 \<le> status_code unavailable_response \<and> status_code unavailable_response < 600
   \<and> Suc 1 = length (requests_made (sample_run unavailable_second three_products 1 True))
   \<and> printed (sample_run unavailable_second three_products 1 True) = []
   \<and> (\<exists>pre. raised (sample_run unavailable_second three_products 1 True)
              = Some (BulkRequestFailed (pre @ ''try again later'')))"
proof -
  let ?r = "sample_run unavailable_second three_products 1 True"
  have i: "1 < length (requests_made ?r)" by code_simp
  have rp: "unavailable_second (take 1 (requests_made ?r)) (requests_made ?r ! 1)
       = Returns unavailable_response" by code_simp
  have s: "400 \<le> status_code unavailable_response \<and> status_code unavailable_response < 600"
    by code_simp
  have t: "resp_text unavailable_response = ''try again later''" by code_simp
  have bad: "(\<exists>x. Returns unavailable_response = Raises x)
       \<or> (\<exists>resp. Returns unavailable_response = Returns resp
             \<and> 400 \<le> status_code resp \<and> status_code resp < 600)"
    using s by simp
  from failed_call_aborts_run [OF sample_run_def [of unavailable_second three_products 1 True] i rp bad] i rp s t
  show ?thesis by auto
qed

theorem non_2xx_counterexample:
  "multiple_choices_first [] (hd (requests_made (sample_run multiple_choices_first three_products 1 True)))
     = Returns (json_response 300 ''Multiple Choices'' no_items)
   \<and> status_code (json_response 300 ''Multiple Choices'' no_items) = 300
   \<and> length (requests_made (sample_run multiple_choices_first three_products 1 True)) = 3
   \<and> raised (sample_run multiple_choices_first three_products 1 True) = None
   \<and> printed (sample_run multiple_choices_first three_products 1 True)
       = [''Bulk import finished. Batches sent: 3.'',
          ''All documents indexed without reported errors.'']"
  by code_simp

text \<open>
  Claim C1, amended. A chunk size of zero or less is not rejected: the Batcher puts
  every line in a batch of its own, and a run whose collections encode to at least
  one line makes a request, the first one carrying the first line alone. (As the
  claim stands, a configuration error before any batch and any network call, it
  fails: nothing in the code checks the chunk size.)
\<close>

theorem nonpositive_chunk_size_not_rejected:
  assumes "chunk_size \<le> 0"
  shows "chunked ls chunk_size = map (\<lambda>l. [l]) ls
       \<and> (product_lines dumps dataset products_index = Inr pl
          \<and> promotion_lines dumps dataset promotions_index skip_promotions = Inr ql
          \<and> pl @ ql \<noteq> [] \<longrightarrow>
            requests_made (import_documents dumps dumps_indent post dataset es_url api_key
                             products_index promotions_index chunk_size tmo skip_promotions) \<noteq> []
          \<and> hd (requests_made (import_documents dumps dumps_indent post dataset es_url api_key
                             products_index promotions_index chunk_size tmo skip_promotions))
              = bulk_request es_url api_key [hd (pl @ ql)] tmo)"
proof -
  have ch: "\<And>xs :: string list. chunked xs chunk_size = map (\<lambda>l. [l]) xs"
    using assms by (simp add: chunked_def chunked_loop_nonpositive)
  have ch': "chunked ls chunk_size = map (\<lambda>l. [l]) ls"
    using assms by (simp add: chunked_def chunked_loop_nonpositive)
  let ?r = "import_documents dumps dumps_indent post dataset es_url api_key
                             products_index promotions_index chunk_size tmo skip_promotions"
  {
    assume pl: "product_lines dumps dataset products_index = Inr pl"
      and ql: "promotion_lines dumps dataset promotions_index skip_promotions = Inr ql"
      and ne: "pl @ ql \<noteq> []"
    define planned where "planned = map (\<lambda>b. bulk_request es_url api_key b tmo)
                      (chunked pl chunk_size @ chunked ql chunk_size)"
    have planned: "planned = map (\<lambda>l. bulk_request es_url api_key [l] tmo) (pl @ ql)"
      by (simp add: planned_def ch comp_def)
    with ne have pne: "planned \<noteq> []" by simp
    have hdp: "hd planned = bulk_request es_url api_key [hd (pl @ ql)] tmo"
      unfolding planned using ne by (rule hd_map)
    from import_documents_sent [OF pl ql planned_def refl [of ?r]]
    have "(\<exists>n. requests_made ?r = take (Suc n) planned) \<or> requests_made ?r = planned"
      by (auto simp: aborted_simps summarize_requests)
    with pne hdp have "requests_made ?r \<noteq> []
        \<and> hd (requests_made ?r) = bulk_request es_url api_key [hd (pl @ ql)] tmo"
      by (cases planned) auto
  }
  with ch' show ?thesis by blast
qed

theorem nonpositive_chunk_size_not_rejected_witness:
  "(- 1 :: int) \<le> 0
   \<and> product_lines json_dumps three_products ''products'' = Inr three_products_lines
   \<and> promotion_lines json_dumps three_products ''promotions'' True = Inr []
   \<and> three_products_lines @ [] \<noteq> []
   \<and> chunked three_products_lines (- 1) = map (\<lambda>l. [l]) three_products_lines
   \<and> requests_made (sample_run always_ok three_products (- 1) True) \<noteq> []
   \<and> hd (requests_made (sample_run always_ok three_products (- 1) True))
       = bulk_request ''http://es:9200/'' ''key'' [hd (three_products_lines @ [])] 60"
proof -
  have c: "(- 1 :: int) \<le> 0" by simp
  have p: "product_lines json_dumps three_products ''products'' = Inr three_products_lines"
    by code_simp
  have q: "promotion_lines json_dumps three_products ''promotions'' True = Inr []"
    by code_simp
  have n: "three_products_lines @ [] \<noteq> []" by (simp add: three_products_lines_def)
  from nonpositive_chunk_size_not_rejected [OF c, of three_products_lines json_dumps
      three_products "''products''" three_products_lines "''promotions''" True "[]"
      json_dumps_indent2 always_ok "''http://es:9200/''" "''key''" 60] c p q n
  show ?thesis unfolding sample_run_def by blast
qed

theorem nonpositive_chunk_size_counterexample:
  "raised (sample_run always_ok three_products 0 True) = None
   \<and> map req_data (requests_made (sample_run always_ok three_products 0 True))
       = map (\<lambda>l. l @ [CHR 0x0A]) three_products_lines
   \<and> printed (sample_run always_ok three_products 0 True)
       = [''Bulk import finished. Batches sent: 6.'',
          ''All documents indexed without reported errors.'']"
  by code_simp

end
